theory Spec2Isabelle
  imports Complex_Main "HOL-Library.AList" "HOL-Library.Monad_Syntax"
begin

section \<open>Python values shared by the models\<close>

text \<open>
  The exceptions of the Python source that the models below can raise, as values.
  \<open>DatabaseError\<close> is the repository's own exception class (lib/database.py); the others
  are Python's built-in ones.
\<close>

datatype py_error =
  IndexError | KeyError | ZeroDivisionError | ValueError | TypeError | DatabaseError

text \<open>
  A Python slice \<open>xs[i:j]\<close> with integer bounds: a negative bound counts from the end, and
  both bounds are clamped to the list.
\<close>

definition py_index :: "int \<Rightarrow> nat \<Rightarrow> nat" where
  "py_index i n = (if i < 0 then nat (max 0 (int n + i)) else min (nat i) n)"

definition py_slice :: "int \<Rightarrow> int \<Rightarrow> 'a list \<Rightarrow> 'a list" where
  "py_slice i j xs =
     (let a = py_index i (length xs); b = py_index j (length xs)
      in take (b - a) (drop a xs))"

section \<open>Python strings and numbers\<close>

text \<open>
  Whitespace as \<open>str.strip\<close> and \<open>str.split\<close> see it on a decoded latin-1 string: the
  ASCII blanks (codes 9 to 13 and 32), the separators (28 to 31), NEL (133) and the
  no-break space (160).
\<close>

definition is_space :: "char \<Rightarrow> bool" where
  "is_space c \<longleftrightarrow> of_char c \<in> set [9, 10, 11, 12, 13, 28, 29, 30, 31, 32, 133, 160 :: nat]"

definition strip :: "string \<Rightarrow> string" where
  "strip s = rev (dropWhile is_space (rev (dropWhile is_space s)))"

definition is_digit :: "char \<Rightarrow> bool" where
  "is_digit c \<longleftrightarrow> c \<in> set ''0123456789''"

definition digit_val :: "char \<Rightarrow> nat" where
  "digit_val c = of_char c - 48"

text \<open>
  \<open>int(s)\<close> on a string: surrounding whitespace is dropped, a sign may lead, and the digits
  may be grouped by single underscores; anything else is a ValueError, here \<open>None\<close>.
  Only ASCII digits are read as digits.
\<close>

fun py_digits :: "nat \<Rightarrow> string \<Rightarrow> nat option" where
  "py_digits acc [] = Some acc"
| "py_digits acc (c # cs) =
     (if is_digit c then py_digits (10 * acc + digit_val c) cs
      else if c = CHR ''_'' \<and> cs \<noteq> [] \<and> is_digit (hd cs) then py_digits acc cs
      else None)"

definition py_nat :: "string \<Rightarrow> nat option" where
  "py_nat s = (case s of [] \<Rightarrow> None | c # cs \<Rightarrow> if is_digit c then py_digits 0 s else None)"

definition py_int :: "string \<Rightarrow> int option" where
  "py_int s =
     (case strip s of
        [] \<Rightarrow> None
      | c # cs \<Rightarrow>
          if c = CHR ''-'' then map_option (\<lambda>n. - int n) (py_nat cs)
          else if c = CHR ''+'' then map_option int (py_nat cs)
          else map_option int (py_nat (c # cs)))"

text \<open>\<open>str(n)\<close> of an integer.\<close>

function str_nat :: "nat \<Rightarrow> string" where
  "str_nat n =
     (if n < 10 then [''0123456789'' ! n]
      else str_nat (n div 10) @ [''0123456789'' ! (n mod 10)])"
  by pat_completeness auto
termination
  by (relation "measure id") auto

definition str_int :: "int \<Rightarrow> string" where
  "str_int i = (if i < 0 then CHR ''-'' # str_nat (nat (- i)) else str_nat (nat i))"

text \<open>
  The Python values that a header or a response code holds in this repository: text, or an
  integer (\<open>add_content\<close> stores the integer \<open>len(data)\<close>, \<open>add_response\<close> the integer code,
  \<open>send_multipart\<close> the header \<open>Age\<close> as 0). \<open>str_of\<close> is what \<open>"{}".format\<close> prints for the
  value, \<open>truthy\<close> its truth value when it is looked up with \<open>dict.get\<close> or may be \<open>None\<close>, and
  \<open>int_of\<close> is \<open>int(v)\<close>, a ValueError being \<open>None\<close>.
\<close>

datatype pyval = PStr string | PInt int

definition str_of :: "pyval \<Rightarrow> string" where
  "str_of v = (case v of PStr t \<Rightarrow> t | PInt i \<Rightarrow> str_int i)"

definition truthy :: "pyval option \<Rightarrow> bool" where
  "truthy x = (case x of None \<Rightarrow> False | Some (PStr t) \<Rightarrow> t \<noteq> [] | Some (PInt i) \<Rightarrow> i \<noteq> 0)"

definition int_of :: "pyval \<Rightarrow> int option" where
  "int_of v = (case v of PStr t \<Rightarrow> py_int t | PInt i \<Rightarrow> Some i)"

section \<open>GraphRingBuffer (main/lib/lib.py)\<close>

text \<open>
  The ring holds one Python list per column name. The dictionary \<open>self.data\<close> is an
  association list in insertion order; \<open>read_events\<close> is the list of the Event flags handed
  out by \<open>get_read_lock\<close>, a reader's token being its index. The write lock serialises
  writers and is not part of the sequential model; the JSON rendering of the last batch is
  not modelled (\<open>head_data\<close> is).
\<close>

record 'v GraphRingBuffer =
  size_rb :: nat
  length_rb :: nat
  tail :: nat
  head :: nat
  names :: "string list"
  data :: "(string \<times> 'v list) list"
  head_data :: "(string \<times> 'v list) list"
  read_events :: "bool list"

definition init_rb :: "string list \<Rightarrow> nat \<Rightarrow> ('v::zero) GraphRingBuffer" where
  "init_rb column_names sz =
     \<lparr> size_rb = sz, length_rb = 0, tail = 0, head = 0, names = column_names,
       data = fold (\<lambda>name d. AList.update name (replicate sz 0) d) column_names [],
       head_data = [], read_events = [] \<rparr>"

text \<open>\<open>sort\<close>: every column becomes \<open>col[tail:] + col[:tail]\<close>.\<close>

definition sort_rb :: "'v GraphRingBuffer \<Rightarrow> 'v GraphRingBuffer" where
  "sort_rb r = r\<lparr>data := map (\<lambda>(name, col). (name, drop (tail r) col @ take (tail r) col)) (data r)\<rparr>"

definition update_rb :: "'v GraphRingBuffer \<Rightarrow> 'v GraphRingBuffer" where
  "update_rb r =
     (let r1 = r\<lparr>tail := 0\<rparr>
      in if length_rb r1 < size_rb r1 then r1\<lparr>head := length_rb r1\<rparr>
         else r1\<lparr>head := 0, length_rb := size_rb r1\<rparr>)"

text \<open>
  \<open>set_size\<close>. When shrinking, each column becomes \<open>col[-size - extra : self.length]\<close> with
  \<open>extra = self.size - self.length\<close> computed on the old size; when growing, each column
  is extended by \<open>size - self.size\<close> zeros.
\<close>

definition set_size :: "nat \<Rightarrow> ('v::zero) GraphRingBuffer \<Rightarrow> 'v GraphRingBuffer" where
  "set_size sz r =
     (if sz = size_rb r then r
      else
        let r1 = sort_rb r;
            extra = int (size_rb r1) - int (length_rb r1);
            d = (if sz < size_rb r1
                 then map (\<lambda>(name, col).
                        (name, py_slice (- int sz - extra) (int (length_rb r1)) col)) (data r1)
                 else map (\<lambda>(name, col).
                        (name, col @ replicate (sz - size_rb r1) 0)) (data r1))
        in update_rb (r1\<lparr>data := d, size_rb := sz\<rparr>))"

definition get_read_lock :: "'v GraphRingBuffer \<Rightarrow> nat \<times> 'v GraphRingBuffer" where
  "get_read_lock r = (length (read_events r), r\<lparr>read_events := read_events r @ [True]\<rparr>)"

text \<open>
  One point of \<open>write\<close>: for every column in \<open>self.names\<close>,
  \<open>self.data[col][self.head] = data[col][i]\<close>, then the head moves and either the tail moves
  (ring full) or the length grows. A missing column is a KeyError, a short input column or a
  head beyond the stored column an IndexError, a ring of size 0 a ZeroDivisionError. An
  exception leaves the ring partly written; the model returns the exception alone.
\<close>

fun store_cols ::
  "string list \<Rightarrow> (string \<times> 'v list) list \<Rightarrow> nat \<Rightarrow> nat \<Rightarrow> (string \<times> 'v list) list
     \<Rightarrow> py_error + (string \<times> 'v list) list" where
  "store_cols [] inp i h d = Inr d"
| "store_cols (c # cs) inp i h d =
     (case map_of inp c of
        None \<Rightarrow> Inl KeyError
      | Some xs \<Rightarrow>
          if length xs \<le> i then Inl IndexError
          else (case map_of d c of
                  None \<Rightarrow> Inl KeyError
                | Some col \<Rightarrow>
                    if length col \<le> h then Inl IndexError
                    else store_cols cs inp i h (AList.update c (col[h := xs ! i]) d)))"

definition write_row ::
  "'v GraphRingBuffer \<Rightarrow> (string \<times> 'v list) list \<Rightarrow> nat \<Rightarrow> py_error + 'v GraphRingBuffer" where
  "write_row r inp i =
     (case store_cols (names r) inp i (head r) (data r) of
        Inl e \<Rightarrow> Inl e
      | Inr d \<Rightarrow>
          if size_rb r = 0 then Inl ZeroDivisionError
          else
            let r1 = r\<lparr>data := d, head := (head r + 1) mod size_rb r\<rparr>
            in if size_rb r1 = length_rb r1
               then Inr (r1\<lparr>tail := (tail r1 + 1) mod size_rb r1\<rparr>)
               else Inr (r1\<lparr>length_rb := length_rb r1 + 1\<rparr>))"

fun write_rows ::
  "'v GraphRingBuffer \<Rightarrow> (string \<times> 'v list) list \<Rightarrow> nat list \<Rightarrow> py_error + 'v GraphRingBuffer" where
  "write_rows r inp [] = Inr r"
| "write_rows r inp (i # is) =
     (case write_row r inp i of Inl e \<Rightarrow> Inl e | Inr r' \<Rightarrow> write_rows r' inp is)"

definition write_rb ::
  "'v GraphRingBuffer \<Rightarrow> (string \<times> 'v list) list \<Rightarrow> py_error + 'v GraphRingBuffer" where
  "write_rb r inp =
     (case inp of
        [] \<Rightarrow> Inl IndexError
      | (k, xs) # rest \<Rightarrow>
          (case write_rows (r\<lparr>head_data := inp\<rparr>) inp [0..<length xs] of
             Inl e \<Rightarrow> Inl e
           | Inr r' \<Rightarrow> Inr (r'\<lparr>read_events := map (\<lambda>e. True) (read_events r')\<rparr>)))"

text \<open>
  \<open>read\<close> and \<open>read_all\<close> take the reader's event token. A blocking call on an event that is
  not set waits for a writer; in the sequential model it does not return, which is the
  outer \<open>None\<close>. The inner option is the value returned (Python's \<open>None\<close> when a
  non-blocking call finds no new data). A token that was never handed out is an IndexError
  of the model's event list.
\<close>

definition read_rb ::
  "'v GraphRingBuffer \<Rightarrow> nat \<Rightarrow> bool
     \<Rightarrow> (py_error + (string \<times> 'v list) list option \<times> 'v GraphRingBuffer) option" where
  "read_rb r ev block =
     (if length (read_events r) \<le> ev then Some (Inl IndexError)
      else if read_events r ! ev
        then Some (Inr (Some (head_data r), r\<lparr>read_events := (read_events r)[ev := False]\<rparr>))
      else if block then None
      else Some (Inr (None, r)))"

definition read_all ::
  "'v GraphRingBuffer \<Rightarrow> nat \<Rightarrow> bool
     \<Rightarrow> (py_error + (string \<times> 'v list) list option \<times> 'v GraphRingBuffer) option" where
  "read_all r ev block =
     (if length (read_events r) \<le> ev then Some (Inl IndexError)
      else if read_events r ! ev
        then (let r' = update_rb (sort_rb (r\<lparr>read_events := (read_events r)[ev := False]\<rparr>))
              in Some (Inr (Some (data r'), r')))
      else if block then None
      else Some (Inr (None, r)))"

text \<open>
  The structural invariant of the ring, and the points it holds in insertion order:
  column by column, the \<open>length\<close> entries starting at \<open>tail\<close>, wrapping around.
\<close>

definition ring_inv :: "'v GraphRingBuffer \<Rightarrow> bool" where
  "ring_inv r \<longleftrightarrow>
     0 < size_rb r \<and> length_rb r \<le> size_rb r \<and> tail r < size_rb r \<and>
     list_all (\<lambda>(name, col). length col = size_rb r) (data r) \<and>
     head r = (tail r + length_rb r) mod size_rb r"

definition points :: "'v GraphRingBuffer \<Rightarrow> (string \<times> 'v list) list" where
  "points r =
     map (\<lambda>(name, col). (name, take (length_rb r) (drop (tail r) col @ take (tail r) col))) (data r)"


text \<open>A ring of capacity 3 that has wrapped around: its points are 10, 20, 30, oldest first.\<close>

definition wrapped_ring :: "int GraphRingBuffer" where
  "wrapped_ring =
     \<lparr> size_rb = 3, length_rb = 3, tail = 1, head = 1, names = [''y''],
       data = [(''y'', [30, 10, 20])], head_data = [(''y'', [30])], read_events = [True] \<rparr>"

text \<open>A ring of capacity 4 after one point has been written to it.\<close>

definition one_point_ring :: "int GraphRingBuffer" where
  "one_point_ring =
     \<lparr> size_rb = 4, length_rb = 1, tail = 0, head = 1, names = [''y''],
       data = [(''y'', [7, 0, 0, 0])], head_data = [(''y'', [7])], read_events = [] \<rparr>"

text \<open>
  A ring of capacity 6 after a reader has registered and the points 1, 2, 3 have been
  written, and a ring of capacity 3 filled by the same calls.
\<close>

definition three_point_ring :: "int GraphRingBuffer" where
  "three_point_ring =
     \<lparr> size_rb = 6, length_rb = 3, tail = 0, head = 3, names = [''y''],
       data = [(''y'', [1, 2, 3, 0, 0, 0])], head_data = [(''y'', [1, 2, 3])],
       read_events = [True] \<rparr>"

definition full_ring :: "int GraphRingBuffer" where
  "full_ring =
     \<lparr> size_rb = 3, length_rb = 3, tail = 0, head = 0, names = [''y''],
       data = [(''y'', [1, 2, 3])], head_data = [(''y'', [1, 2, 3])],
       read_events = [True] \<rparr>"

section \<open>Base, Request, SocketHandler and Node (main/lib/lib.py)\<close>

text \<open>
  \<open>Base\<close> carries the two status flags every class inherits. \<open>halt\<close> sets \<open>exit\<close>;
  \<open>shutdown\<close> returns at once when both flags are set and otherwise halts and sets
  \<open>close\<close>; \<open>throw\<close> calls \<open>shutdown\<close> and then displays the error. The field \<open>errors\<close>
  records the messages passed to \<open>throw\<close> (their fixed text, without the formatted
  arguments). Debug and log output, the condition variables notified by \<open>halt\<close> and the
  cleanup thread they wake are outside the sequential model.
\<close>

record Base =
  exit :: bool
  close :: bool
  errors :: "string list"

definition halt :: "'a Base_scheme \<Rightarrow> 'a Base_scheme" where
  "halt b = b\<lparr>exit := True\<rparr>"

definition shutdown :: "'a Base_scheme \<Rightarrow> 'a Base_scheme" where
  "shutdown b = (if close b \<and> exit b then b else (halt b)\<lparr>close := True\<rparr>)"

definition throw :: "string \<Rightarrow> 'a Base_scheme \<Rightarrow> 'a Base_scheme" where
  "throw msg b = (let b1 = shutdown b in b1\<lparr>errors := errors b1 @ [msg]\<rparr>)"

text \<open>
  A Request. Dictionaries are association lists in insertion order. A header value and the
  response code are text or an integer: the parser stores text, the \<open>add_\<close> functions store
  what they are given. \<open>content\<close> is the byte string, one \<open>char\<close> per byte (the stream
  encoding is latin-1, one character per byte). The \<open>origin\<close> back-reference and the status
  flags a Request inherits from \<open>Base\<close> are not part of the data a request carries and are
  left out.
\<close>

record Request =
  method_rq :: "string option"
  code :: "pyval option"
  message :: "string option"
  version :: string
  path :: "string option"
  queries :: "(string \<times> string) list"
  header :: "(string \<times> pyval) list"
  content :: "string option"

definition new_request :: Request where
  "new_request =
     \<lparr> method_rq = None, code = None, message = None, version = ''HTTP/1.1'', path = None,
       queries = [], header = [], content = None \<rparr>"

text \<open>
  A SocketHandler: \<open>pull_buffer\<close> is the input that has arrived and not been read yet,
  followed by end of file; \<open>request\<close> is the request being parsed.
\<close>

record SocketHandler = Base +
  sock_name :: string
  sock_id :: string
  pull_buffer :: string
  request :: Request

record Node = Base +
  node_name :: string
  sockets :: "(string \<times> SocketHandler) list"

definition add_socket :: "SocketHandler \<Rightarrow> Node \<Rightarrow> string \<times> Node" where
  "add_socket socket_handler n =
     (sock_id socket_handler,
      n\<lparr>sockets := AList.update (sock_id socket_handler) socket_handler (sockets n)\<rparr>)"

text \<open>
  \<open>Node.remove_socket\<close>: an unknown id returns after a debug message; a handler whose
  \<open>exit\<close> flag is not set makes the node \<open>throw\<close>; otherwise the entry is deleted. The
  registry of the source holds the handler objects; here it holds each handler's state as
  it is when \<open>remove_socket\<close> is called.
\<close>

definition remove_socket :: "string \<Rightarrow> Node \<Rightarrow> Node" where
  "remove_socket socket_id n =
     (case map_of (sockets n) socket_id of
        None \<Rightarrow> n
      | Some handler \<Rightarrow>
          if \<not> exit handler
          then throw ''Attempted to remove a live SocketHandler'' n
          else n\<lparr>sockets := AList.delete socket_id (sockets n)\<rparr>)"

definition live_handler :: SocketHandler where
  "live_handler =
     \<lparr> exit = False, close = False, errors = [], sock_name = ''SOCKET'', sock_id = ''s1'',
       pull_buffer = [], request = new_request \<rparr>"

definition example_node :: Node where
  "example_node =
     \<lparr> exit = False, close = False, errors = [], node_name = ''Node'',
       sockets = [(''s1'', live_handler)] \<rparr>"

section \<open>PlaybackDatabase clock (lib/database.py)\<close>

text \<open>
  The playback clock. Python floats are modelled as reals (rounding is outside the model);
  \<open>now\<close> is the value \<open>time()\<close> returns at the call, in seconds, and the source multiplies
  it by 1000.
\<close>

record PlaybackDatabase =
  playback_speed :: real
  playback_active :: bool
  start_time :: real
  relative_stop_time :: real

definition is_streaming :: "PlaybackDatabase \<Rightarrow> bool" where
  "is_streaming db = playback_active db"

definition time_pb :: "PlaybackDatabase \<Rightarrow> real \<Rightarrow> real" where
  "time_pb db now =
     (if is_streaming db
      then (let diff = (now * 1000 - start_time db) * playback_speed db
            in relative_stop_time db + diff)
      else relative_stop_time db)"

definition start_pb :: "PlaybackDatabase \<Rightarrow> real \<Rightarrow> PlaybackDatabase" where
  "start_pb db now =
     (if is_streaming db then db
      else db\<lparr>start_time := now * 1000, playback_active := True\<rparr>)"

definition stop_pb :: "PlaybackDatabase \<Rightarrow> real \<Rightarrow> PlaybackDatabase" where
  "stop_pb db now = db\<lparr>relative_stop_time := time_pb db now, playback_active := False\<rparr>"

text \<open>
  What a caller can do to a playback store between two readings of the clock: read the
  clock, start, stop, or assign a new speed. Each operation carries the wall-clock time of
  its call.
\<close>

datatype pb_op = Time real | Start real | Stop real | SetSpeed real

fun apply_pb :: "PlaybackDatabase \<Rightarrow> pb_op \<Rightarrow> PlaybackDatabase" where
  "apply_pb db (Time now) = db"
| "apply_pb db (Start now) = start_pb db now"
| "apply_pb db (Stop now) = stop_pb db now"
| "apply_pb db (SetSpeed v) = db\<lparr>playback_speed := v\<rparr>"

fun is_start :: "pb_op \<Rightarrow> bool" where
  "is_start (Start now) = True"
| "is_start other = False"

definition example_pb :: PlaybackDatabase where
  "example_pb =
     \<lparr> playback_speed = 5, playback_active = True, start_time = 2000,
       relative_stop_time = 100 \<rparr>"

section \<open>DatabaseController (lib/database.py)\<close>

text \<open>
  The controller's session index and port table. Of a bound store the controller reads
  only \<open>live\<close> and \<open>port\<close>. \<open>db.shutdown()\<close> talks to the backend: \<open>shutdown_ok\<close> says
  whether it returns or raises DatabaseError, and \<open>shut_down\<close> lists the ports whose
  backend was shut down.
\<close>

record Database =
  live :: bool
  port :: nat
  db_file :: string

record port_info =
  port_file :: "string option"
  count :: int

record DatabaseController =
  sessions :: "(string \<times> Database) list"
  playback_ports :: "(nat \<times> port_info) list"
  shut_down :: "nat list"

definition get :: "DatabaseController \<Rightarrow> string \<Rightarrow> Database option" where
  "get c ID = map_of (sessions c) ID"

text \<open>Python's truth value of \<open>info['file']\<close>: set and not the empty string.\<close>

definition file_set :: "port_info \<Rightarrow> bool" where
  "file_set info = (case port_file info of None \<Rightarrow> False | Some f \<Rightarrow> f \<noteq> [])"

definition remove :: "bool \<Rightarrow> string \<Rightarrow> DatabaseController \<Rightarrow> py_error + DatabaseController" where
  "remove shutdown_ok ID c =
     (case map_of (sessions c) ID of
        None \<Rightarrow> Inr c
      | Some db \<Rightarrow>
          if live db then Inr c
          else (case map_of (playback_ports c) (port db) of
                  None \<Rightarrow> Inl KeyError
                | Some info \<Rightarrow>
                    if file_set info \<and> count info > 1
                    then Inr (c\<lparr>playback_ports :=
                                  AList.update (port db) (info\<lparr>count := count info - 1\<rparr>)
                                    (playback_ports c),
                                sessions := AList.delete ID (sessions c)\<rparr>)
                    else if file_set info \<and> count info \<le> 1
                    then (if shutdown_ok
                          then Inr (c\<lparr>shut_down := shut_down c @ [port db],
                                      playback_ports :=
                                        AList.update (port db) \<lparr>port_file = None, count = 0\<rparr>
                                          (playback_ports c),
                                      sessions := AList.delete ID (sessions c)\<rparr>)
                          else Inl DatabaseError)
                    else Inr (c\<lparr>sessions := AList.delete ID (sessions c)\<rparr>)))"

definition live_db :: Database where
  "live_db = \<lparr> live = True, port = 5001, db_file = ''live.rdb'' \<rparr>"

definition example_controller :: DatabaseController where
  "example_controller =
     \<lparr> sessions = [(''session-1'', live_db)],
       playback_ports = [(7000, \<lparr>port_file = None, count = 0\<rparr>), (7001, \<lparr>port_file = None, count = 0\<rparr>),
                         (7002, \<lparr>port_file = None, count = 0\<rparr>)],
       shut_down = [] \<rparr>"

section \<open>Database: bookmarks, writes and reads (lib/database.py)\<close>

text \<open>
  A Bookmark. \<open>locked\<close> is the state of its \<open>multiprocessing.Lock\<close>. \<open>lock\<close> with
  \<open>block=False\<close> returns what \<open>acquire\<close> returns: \<open>True\<close> when the call took the lock,
  \<open>False\<close> when it was already held. \<open>release\<close> of a lock that is not held raises
  ValueError. The field \<open>write\<close> of the source is \<open>write_bm\<close> here.
\<close>

record Bookmark =
  locked :: bool
  first_id :: "string option"
  last_id :: "string option"
  first_time :: "real option"
  last_time :: "real option"
  end_id :: "string option"
  sample_rate :: "real option"
  write_bm :: "int option"
  seq :: "int option"

definition new_bookmark :: Bookmark where
  "new_bookmark =
     \<lparr> locked = False, first_id = None, last_id = None, first_time = None, last_time = None,
       end_id = None, sample_rate = None, write_bm = None, seq = None \<rparr>"

definition lock :: "Bookmark \<Rightarrow> bool \<times> Bookmark" where
  "lock b = (if locked b then (False, b) else (True, b\<lparr>locked := True\<rparr>))"

definition release :: "Bookmark \<Rightarrow> py_error + Bookmark" where
  "release b = (if locked b then Inr (b\<lparr>locked := False\<rparr>) else Inl ValueError)"

text \<open>
  The store wrapper: its bookmarks by stream and its \<open>start_time\<close> (the creation time of a
  plain Database, the backend's START_TIME key or \<open>None\<close> for a live one).
  \<open>Bookmarks.get\<close> creates a bookmark that does not exist yet.
\<close>

record DatabaseConn =
  bookmarks :: "(string \<times> Bookmark) list"
  start_time_db :: "real option"

definition bookmarks_get :: "DatabaseConn \<Rightarrow> string \<Rightarrow> Bookmark \<times> DatabaseConn" where
  "bookmarks_get db ID =
     (case map_of (bookmarks db) ID of
        Some bookmark \<Rightarrow> (bookmark, db)
      | None \<Rightarrow> (new_bookmark, db\<lparr>bookmarks := AList.update ID new_bookmark (bookmarks db)\<rparr>))"

definition set_bookmark :: "string \<Rightarrow> Bookmark \<Rightarrow> DatabaseConn \<Rightarrow> DatabaseConn" where
  "set_bookmark ID b db = db\<lparr>bookmarks := AList.update ID b (bookmarks db)\<rparr>"

text \<open>
  \<open>time_to_redis\<close> is \<open>str(unix_time).split('.')[0]\<close>. A number is rendered by its integer
  part, which is what Python prints for an integer and for a float that is 0 or lies
  between 1e-4 and 1e16, as Unix milliseconds do; a string is cut at its first dot.
  \<open>redis_to_time\<close> reads the part of an id before the first dash, a run of decimal digits in
  every id the backend gives out, as a number.
\<close>

datatype val = Num real | Text string

fun time_to_redis :: "val \<Rightarrow> string" where
  "time_to_redis (Num x) = str_int (if 0 \<le> x then \<lfloor>x\<rfloor> else \<lceil>x\<rceil>)"
| "time_to_redis (Text s) = takeWhile (\<lambda>c. c \<noteq> CHR ''.'') s"

definition redis_to_time :: "string \<Rightarrow> py_error + real" where
  "redis_to_time redis_time =
     (case py_int (takeWhile (\<lambda>c. c \<noteq> CHR ''-'') redis_time) of
        None \<Rightarrow> Inl ValueError
      | Some n \<Rightarrow> Inr (real_of_int n))"

text \<open>
  \<open>validate_redis_time\<close>. \<open>not last_write\<close> holds for \<open>None\<close> and for 0 and returns the id
  as it came; only past that test is \<open>bookmark.write\<close> assigned.
\<close>

definition validate_redis_time :: "string \<Rightarrow> Bookmark \<Rightarrow> py_error + string \<times> Bookmark" where
  "validate_redis_time redis_id bookmark =
     (case write_bm bookmark of
        None \<Rightarrow> Inr (redis_id, bookmark)
      | Some last_write \<Rightarrow>
          if last_write = 0 then Inr (redis_id, bookmark)
          else (case py_int redis_id of
                  None \<Rightarrow> Inl ValueError
                | Some n \<Rightarrow>
                    let b1 = bookmark\<lparr>write_bm := Some n\<rparr>
                    in if n = last_write
                       then (case seq b1 of
                               None \<Rightarrow> Inl TypeError
                             | Some sq \<Rightarrow>
                                 Inr (redis_id @ ''-'' @ str_int (sq + 1), b1\<lparr>seq := Some (sq + 1)\<rparr>))
                       else Inr (redis_id, b1\<lparr>seq := Some 0\<rparr>)))"

text \<open>
  \<open>write_data\<close>. A column is one scalar or a sequence; \<open>xadd\<close> is one command sent to the
  backend: the key, the row and the id. The backend itself is not modelled: the result is
  the list of commands issued (Redis refuses an id that is not above the top id of the
  stream). The decorator \<open>catch_database_errors\<close> turns every exception into a
  DatabaseError.
\<close>

datatype column = Single val | Many "val list"

record xadd =
  xadd_key :: string
  xadd_row :: "(string \<times> val) list"
  xadd_id :: string

definition valid_list :: "column \<Rightarrow> bool" where
  "valid_list c = (case c of Single v \<Rightarrow> False | Many vs \<Rightarrow> True)"

definition column_size :: "column \<Rightarrow> nat option" where
  "column_size c = (case c of Single v \<Rightarrow> None | Many vs \<Rightarrow> Some (length vs))"

definition row_at :: "(string \<times> column) list \<Rightarrow> nat \<Rightarrow> (string \<times> val) list" where
  "row_at dat i =
     map (\<lambda>(k, c). (k, case c of Single v \<Rightarrow> v | Many vs \<Rightarrow> vs ! i)) dat"

fun write_points ::
  "string \<Rightarrow> (string \<times> column) list \<Rightarrow> val list \<Rightarrow> nat \<Rightarrow> Bookmark \<Rightarrow> xadd list
     \<Rightarrow> py_error + xadd list \<times> Bookmark" where
  "write_points stream dat [] i bookmark cmds = Inr (cmds, bookmark)"
| "write_points stream dat (t # ts) i bookmark cmds =
     (case validate_redis_time (time_to_redis t) bookmark of
        Inl e \<Rightarrow> Inl e
      | Inr (redis_id, b1) \<Rightarrow>
          write_points stream dat ts (i + 1) b1
            (cmds @ [\<lparr>xadd_key = ''stream:'' @ stream, xadd_row = row_at dat i, xadd_id = redis_id\<rparr>]))"

definition write_data ::
  "string \<Rightarrow> (string \<times> column) list \<Rightarrow> DatabaseConn \<Rightarrow> py_error + xadd list \<times> DatabaseConn" where
  "write_data stream dat db =
     (case map_of dat ''time'' of
        None \<Rightarrow> Inl DatabaseError
      | Some time_col \<Rightarrow>
          if card (set (map (\<lambda>(k, c). column_size c) dat)) > 1 then Inl DatabaseError
          else
            (case dat of
               [] \<Rightarrow> Inl DatabaseError
             | (k0, c0) # rest \<Rightarrow>
                 let (bookmark, db1) = bookmarks_get db stream
                 in (case c0 of
                       Many vs0 \<Rightarrow>
                         (case time_col of
                            Single t \<Rightarrow> Inl DatabaseError
                          | Many ts \<Rightarrow>
                              (case write_points stream dat (take (length vs0) ts) 0 bookmark [] of
                                 Inl e \<Rightarrow> Inl DatabaseError
                               | Inr (cmds, b1) \<Rightarrow> Inr (cmds, set_bookmark stream b1 db1)))
                     | Single v0 \<Rightarrow>
                         (case time_col of
                            Many ts \<Rightarrow> Inl DatabaseError
                          | Single t \<Rightarrow>
                              (case validate_redis_time (time_to_redis t) bookmark of
                                 Inl e \<Rightarrow> Inl DatabaseError
                               | Inr (redis_id, b1) \<Rightarrow>
                                   Inr ([\<lparr>xadd_key = ''stream:'' @ stream, xadd_row = row_at dat 0,
                                          xadd_id = redis_id\<rparr>],
                                        set_bookmark stream b1 db1))))))"

text \<open>
  \<open>read_data\<close>. The backend is a parameter: for each query it gives the entries returned
  (or the exception raised); \<open>now1\<close> and \<open>now2\<close> are the two readings of \<open>time()\<close> in
  seconds, \<open>to_float\<close> is Python's \<open>float\<close> on a stored cell. The result pairs what the call
  returns or raises with the store left behind; the JSON rendering asked for by \<open>to_json\<close>
  is applied to the returned dictionary and is not modelled.
\<close>

datatype query = XREVRANGE string nat | XREAD string string | XREAD_NEW string

datatype cell = Float real | Raw string

definition time_db :: "real \<Rightarrow> real" where
  "time_db now = now * 1000"

text \<open>Python's truth values of an optional string and of an optional number.\<close>

definition truthy_str :: "string option \<Rightarrow> bool" where
  "truthy_str s = (case s of None \<Rightarrow> False | Some t \<Rightarrow> t \<noteq> [])"

definition truthy_num :: "real option \<Rightarrow> bool" where
  "truthy_num x = (case x of None \<Rightarrow> False | Some t \<Rightarrow> t \<noteq> 0)"

definition append_cell ::
  "(string \<times> cell list) list \<Rightarrow> string \<Rightarrow> cell \<Rightarrow> (string \<times> cell list) list" where
  "append_cell out k v =
     (case map_of out k of
        None \<Rightarrow> AList.update k [v] out
      | Some vs \<Rightarrow> if vs = [] then AList.update k [v] out else AList.update k (vs @ [v]) out)"

fun convert_row ::
  "(string \<Rightarrow> real option) \<Rightarrow> bool \<Rightarrow> (string \<times> string) list \<Rightarrow> (string \<times> cell list) list
     \<Rightarrow> py_error + (string \<times> cell list) list" where
  "convert_row to_float numerical [] out = Inr out"
| "convert_row to_float numerical ((k, v) # d) out =
     (if numerical
      then (case to_float v of
              None \<Rightarrow> Inl ValueError
            | Some x \<Rightarrow> convert_row to_float numerical d (append_cell out k (Float x)))
      else convert_row to_float numerical d (append_cell out k (Raw v)))"

fun convert_rows ::
  "(string \<Rightarrow> real option) \<Rightarrow> bool \<Rightarrow> (string \<times> (string \<times> string) list) list
     \<Rightarrow> (string \<times> cell list) list \<Rightarrow> py_error + (string \<times> cell list) list" where
  "convert_rows to_float numerical [] out = Inr out"
| "convert_rows to_float numerical ((entry_id, d) # response) out =
     (case convert_row to_float numerical d out of
        Inl e \<Rightarrow> Inl e
      | Inr out1 \<Rightarrow> convert_rows to_float numerical response out1)"

definition fetch ::
  "(query \<Rightarrow> py_error + (string \<times> (string \<times> string) list) list) \<Rightarrow> real \<Rightarrow> string
     \<Rightarrow> nat option \<Rightarrow> real option \<Rightarrow> Bookmark
     \<Rightarrow> py_error + (string \<times> (string \<times> string) list) list" where
  "fetch backend now1 stream cnt max_time bookmark =
     (if cnt \<noteq> None \<and> cnt \<noteq> Some 0 then backend (XREVRANGE (''stream:'' @ stream) (the cnt))
      else if truthy_str (last_id bookmark) \<and> truthy_num (last_time bookmark)
      then
        (let last_read_id = the (last_id bookmark);
             last_read_time = the (last_time bookmark);
             time_since_last = time_db now1 - last_read_time
         in if truthy_num max_time \<and> time_since_last > the max_time * 1000
            then (case redis_to_time last_read_id of
                    Inl e \<Rightarrow> Inl e
                  | Inr t \<Rightarrow>
                      backend (XREAD (''stream:'' @ stream)
                        (time_to_redis (Num (t + (time_since_last - the max_time * 1000))))))
            else backend (XREAD (''stream:'' @ stream) last_read_id))
      else backend (XREAD_NEW (''stream:'' @ stream)))"

definition read_data ::
  "(string \<Rightarrow> real option) \<Rightarrow> (query \<Rightarrow> py_error + (string \<times> (string \<times> string) list) list)
     \<Rightarrow> real \<Rightarrow> real \<Rightarrow> string option \<Rightarrow> nat option \<Rightarrow> real option \<Rightarrow> bool \<Rightarrow> bool
     \<Rightarrow> DatabaseConn \<Rightarrow> (py_error + (string \<times> cell list) list option) \<times> DatabaseConn" where
  "read_data to_float backend now1 now2 stream cnt max_time numerical decode db =
     (case stream of
        None \<Rightarrow> (Inr None, db)
      | Some st \<Rightarrow>
          let (bookmark, db1) = bookmarks_get db st;
              (acquired, b1) = lock bookmark;
              db2 = set_bookmark st b1 db1
          in if acquired then (Inr None, db2)
             else
               (case fetch backend now1 st cnt max_time b1 of
                  Inl e \<Rightarrow> (Inl DatabaseError, db2)
                | Inr response \<Rightarrow>
                    if response = []
                    then (case release b1 of
                            Inl e \<Rightarrow> (Inl DatabaseError, db2)
                          | Inr b2 \<Rightarrow> (Inr None, set_bookmark st b2 db2))
                    else
                      let b2 = (if truthy_num (first_time b1) then b1
                                else b1\<lparr>first_time := start_time_db db,
                                        first_id := Some (fst (last response))\<rparr>);
                          b3 = b2\<lparr>last_time := Some (time_db now2),
                                  last_id := Some (fst (last response))\<rparr>;
                          db3 = set_bookmark st b3 db2
                      in (case convert_rows to_float (numerical \<and> decode) response [] of
                            Inl e \<Rightarrow> (Inl DatabaseError, db3)
                          | Inr output \<Rightarrow>
                              (case release b3 of
                                 Inl e \<Rightarrow> (Inl DatabaseError, db3)
                               | Inr b4 \<Rightarrow> (Inr (Some output), set_bookmark st b4 db3)))))"

text \<open>A store with no bookmarks yet, and a backend that holds one entry of a stream.\<close>

definition fresh_db :: DatabaseConn where
  "fresh_db = \<lparr> bookmarks = [], start_time_db = Some 5000 \<rparr>"

definition one_entry_backend :: "query \<Rightarrow> py_error + (string \<times> (string \<times> string) list) list" where
  "one_entry_backend q = Inr [(''1000-0'', [(''time'', ''1000''), (''x'', ''1'')])]"

definition locked_db :: DatabaseConn where
  "locked_db = \<lparr> bookmarks = [(''s'', new_bookmark\<lparr>locked := True\<rparr>)], start_time_db = Some 5000 \<rparr>"

definition float_of :: "string \<Rightarrow> real option" where
  "float_of s = map_option real_of_int (py_int s)"

section \<open>The request codec: parsing (SocketHandler, main/lib/lib.py)\<close>

text \<open>
  More of Python's \<open>str\<close>: \<open>s.split()\<close> on whitespace, \<open>s.split(sep)\<close>, the first split of
  \<open>s.split(sep, 1)\<close>, \<open>kw in s\<close> on strings, and \<open>s.lower()\<close> on latin-1 text (the ASCII
  capitals and the accented capitals 192 to 222 but the multiplication sign move up by 32).
\<close>

fun split_ws :: "string \<Rightarrow> string \<Rightarrow> string list" where
  "split_ws w [] = (if w = [] then [] else [w])"
| "split_ws w (c # cs) =
     (if is_space c then (if w = [] then split_ws [] cs else w # split_ws [] cs)
      else split_ws (w @ [c]) cs)"

definition py_words :: "string \<Rightarrow> string list" where
  "py_words s = split_ws [] s"

fun split_on :: "char \<Rightarrow> string \<Rightarrow> string \<Rightarrow> string list" where
  "split_on sep w [] = [w]"
| "split_on sep w (c # cs) =
     (if c = sep then w # split_on sep [] cs else split_on sep (w @ [c]) cs)"

definition split1 :: "char \<Rightarrow> string \<Rightarrow> (string \<times> string) option" where
  "split1 sep s =
     (case dropWhile (\<lambda>c. c \<noteq> sep) s of
        [] \<Rightarrow> None
      | c # rest \<Rightarrow> Some (takeWhile (\<lambda>c. c \<noteq> sep) s, rest))"

fun contains :: "string \<Rightarrow> string \<Rightarrow> bool" where
  "contains kw [] = (kw = [])"
| "contains kw (c # cs) = (take (length kw) (c # cs) = kw \<or> contains kw cs)"

definition lower_char :: "char \<Rightarrow> char" where
  "lower_char c =
     (let n = of_char c :: nat
      in if (65 \<le> n \<and> n \<le> 90) \<or> (192 \<le> n \<and> n \<le> 222 \<and> n \<noteq> 215)
         then char_of (n + 32) else c)"

definition lower :: "string \<Rightarrow> string" where
  "lower s = map lower_char s"

text \<open>
  The buffered reader: \<open>readline()\<close> returns the input up to and including the next line
  feed, or what is left at end of file; \<open>read(n)\<close> returns \<open>n\<close> bytes, fewer at end of file,
  and everything when \<open>n\<close> is -1 (a length below -1 is refused with ValueError, see
  \<open>read_exact\<close>).
\<close>

fun readline :: "string \<Rightarrow> string \<times> string" where
  "readline [] = ([], [])"
| "readline (c # cs) =
     (if c = CHR 0x0A then ([c], cs) else (let (l, r) = readline cs in (c # l, r)))"

definition pull_read :: "int \<Rightarrow> string \<Rightarrow> string \<times> string" where
  "pull_read n buf = (if n < 0 then (buf, []) else (take (nat n) buf, drop (nat n) buf))"

definition CRLF :: string where
  "CRLF = [CHR 0x0D, CHR 0x0A]"

text \<open>\<open>data[-2:] != CRLF\<close>: the last two bytes, or all of a shorter string.\<close>

definition ends_crlf :: "string \<Rightarrow> bool" where
  "ends_crlf dat \<longleftrightarrow> drop (length dat - 2) dat = CRLF"

text \<open>
  \<open>read(length, line=True)\<close>. The first \<open>readline()\<close> is not measured; the loop runs only
  while the data read so far does not end in CRLF, and only the loop compares the length
  with the maximum. At end of file \<open>readline()\<close> returns nothing and the loop does not
  advance: the call does not return, which is \<open>None\<close> here.
\<close>

datatype line_read = TooLong string string | Line string string

partial_function (option) read_line_loop :: "nat \<Rightarrow> bool \<Rightarrow> string \<Rightarrow> string \<Rightarrow> line_read option" where
  "read_line_loop max_len ex dat buf =
     (if dat \<noteq> [] \<and> \<not> ends_crlf dat \<and> \<not> ex
      then (case readline buf of
              (l, rest) \<Rightarrow>
                if length (dat @ l) > max_len then Some (TooLong (dat @ l) rest)
                else read_line_loop max_len ex (dat @ l) rest)
      else Some (Line dat buf))"

definition read_line :: "nat \<Rightarrow> SocketHandler \<Rightarrow> (string option \<times> SocketHandler) option" where
  "read_line max_len h =
     (case readline (pull_buffer h) of
        (d0, rest0) \<Rightarrow>
          Option.bind (read_line_loop max_len (exit h) d0 rest0)
            (\<lambda>r. case r of
               TooLong dat rest \<Rightarrow>
                 Some (None, shutdown (throw ''Couldn't read a line from the stream - maximum length reached''
                                        (h\<lparr>pull_buffer := rest\<rparr>)))
             | Line dat rest \<Rightarrow>
                 if dat = [] then Some (None, shutdown (h\<lparr>pull_buffer := rest\<rparr>))
                 else Some (Some (strip dat), h\<lparr>pull_buffer := rest\<rparr>)))"

text \<open>
  \<open>read(length, decode=False)\<close>: one \<open>read(length)\<close>, then, while the data is short of
  \<open>length\<close>, \<open>length -= data_len\<close> and another read. No data at all is a closed
  connection: the handler shuts down and the call returns nothing.
\<close>

function read_more :: "int \<Rightarrow> bool \<Rightarrow> string \<Rightarrow> string \<Rightarrow> string \<times> string" where
  "read_more len ex dat buf =
     (if dat \<noteq> [] \<and> int (length dat) < len \<and> \<not> ex
      then (case pull_read (len - int (length dat)) buf of
              (chunk, rest) \<Rightarrow> read_more (len - int (length dat)) ex (dat @ chunk) rest)
      else (dat, buf))"
  by pat_completeness auto
termination
proof (relation "measure (\<lambda>(len, ex, dat, buf). nat (len - int (length dat)))", goal_cases)
  case 1
  show ?case by simp
next
  case (2 len ex dat buf x y)
  then have "0 < length dat" by simp
  then have "- int (length x) < int (length dat)" by linarith
  with 2 show ?case by simp
qed

definition read_exact ::
  "int \<Rightarrow> SocketHandler \<Rightarrow> (py_error + string option) \<times> SocketHandler" where
  "read_exact len h =
     (if len < - 1 then (Inl ValueError, h)
      else
        (case pull_read len (pull_buffer h) of
           (d0, rest0) \<Rightarrow>
             (case read_more len (exit h) d0 rest0 of
                (dat, rest) \<Rightarrow>
                  if dat = [] then (Inr None, shutdown (h\<lparr>pull_buffer := rest\<rparr>))
                  else (Inr (Some dat), h\<lparr>pull_buffer := rest\<rparr>))))"

text \<open>
  What a parsing step hands back: \<open>Done\<close> is a true return, \<open>Failed\<close> a false one (the
  error has been handled), \<open>Raised\<close> an exception on its way to \<open>_run\<close>.
\<close>

datatype step = Done | Failed | Raised py_error

partial_function (option) read_request_line :: "SocketHandler \<Rightarrow> (string option \<times> SocketHandler) option" where
  "read_request_line h =
     Option.bind (read_line 256 h)
       (\<lambda>r. case r of
          (None, h1) \<Rightarrow> Some (None, h1)
        | (Some l, h1) \<Rightarrow> if l = [] then read_request_line h1 else Some (Some l, h1))"

text \<open>
  \<open>dict(pairs)\<close> of the query: every \<open>pair.split('=')\<close> must have exactly two parts, a later
  value for a key replaces the earlier one.
\<close>

fun query_dict :: "string list list \<Rightarrow> (string \<times> string) list \<Rightarrow> (string \<times> string) list option" where
  "query_dict [] d = Some d"
| "query_dict (p # ps) d =
     (case p of [k, v] \<Rightarrow> query_dict ps (AList.update k v d) | other \<Rightarrow> None)"

definition request_line :: "string \<Rightarrow> SocketHandler \<Rightarrow> step \<times> SocketHandler" where
  "request_line l h =
     (case py_words l of
        [w0, w1, w2] \<Rightarrow>
          if take 5 w0 = ''HTTP/''
          then (Done, h\<lparr>request := (request h)\<lparr>version := w0, code := Some (PStr w1),
                                                  message := Some w2\<rparr>\<rparr>)
          else
            (let rq = (request h)\<lparr>method_rq := Some w0, version := w2\<rparr>
             in if CHR ''?'' \<in> set w1
                then (case split_on CHR ''?'' [] w1 of
                        [p, q] \<Rightarrow>
                          (case query_dict (map (split_on CHR ''='' []) (split_on CHR ''&'' [] q)) [] of
                             None \<Rightarrow> (Raised ValueError, h\<lparr>request := rq\<lparr>path := Some p\<rparr>\<rparr>)
                           | Some d \<Rightarrow> (Done, h\<lparr>request := rq\<lparr>path := Some p, queries := d\<rparr>\<rparr>))
                      | other \<Rightarrow> (Raised ValueError, h\<lparr>request := rq\<rparr>))
                else (Done, h\<lparr>request := rq\<lparr>path := Some w1\<rparr>\<rparr>))
      | other \<Rightarrow> (Failed, throw ''Request-Line must conform to HTTP Standard'' h))"

definition parse_request_line :: "SocketHandler \<Rightarrow> (step \<times> SocketHandler) option" where
  "parse_request_line h =
     Option.bind (read_request_line h)
       (\<lambda>r. case r of
          (None, h1) \<Rightarrow> Some (Failed, h1)
        | (Some l, h1) \<Rightarrow> Some (request_line l h1))"

text \<open>
  \<open>parse_header\<close>: \<open>for _ in range(max_num)\<close> with an \<open>else\<close> branch that throws when the
  loop was not left by \<open>break\<close>; the counter is the number of iterations left.
\<close>

fun parse_header_loop :: "nat \<Rightarrow> SocketHandler \<Rightarrow> (step \<times> SocketHandler) option" where
  "parse_header_loop 0 h = Some (Failed, throw ''Too many headers'' h)"
| "parse_header_loop (Suc n) h =
     Option.bind (read_line 1024 h)
       (\<lambda>r. case r of
          (None, h1) \<Rightarrow> Some (Failed, h1)
        | (Some l, h1) \<Rightarrow>
            if l = [] then Some (Done, h1)
            else (case split1 CHR '':'' l of
                    None \<Rightarrow> Some (Failed, throw ''Header line did not match standard format.'' h1)
                  | Some (k, v) \<Rightarrow>
                      parse_header_loop n
                        (h1\<lparr>request := (request h1)\<lparr>header :=
                               AList.update (lower k) (PStr (strip v)) (header (request h1))\<rparr>\<rparr>)))"

definition parse_header :: "SocketHandler \<Rightarrow> (step \<times> SocketHandler) option" where
  "parse_header h = parse_header_loop 32 h"

text \<open>
  \<open>validate\<close>. \<open>host_string\<close> is assigned with a trailing comma and so is the one-element
  tuple \<open>(header.get('host'),)\<close>: it is always true, and \<open>keyword in host_string\<close> asks
  whether the keyword is that element. \<open>agent_string\<close> is the header value, and
  \<open>keyword in agent_string\<close> is the substring test on text and a TypeError on an integer.
  \<open>valid_headers\<close> is the value of \<open>valid\<close> after the two loops, or the exception.
\<close>

definition host_keywords :: "string list" where
  "host_keywords = [''webredirect'', ''ddnsfree'']"

definition agent_keywords :: "string list" where
  "agent_keywords = [''nimbostratus'', ''cloudsystemnetworks'', ''bot'']"

definition valid_headers :: "(string \<times> pyval) list \<Rightarrow> py_error + bool" where
  "valid_headers hs =
     (let host_string = map_of hs ''host'';
          agent_string = map_of hs ''user-agent'';
          host_valid = \<not> list_ex (\<lambda>keyword. host_string = Some (PStr keyword)) host_keywords
      in if truthy agent_string
         then (case the agent_string of
                 PStr a \<Rightarrow>
                   Inr (host_valid \<and> \<not> list_ex (\<lambda>keyword. contains keyword a) agent_keywords)
               | PInt i \<Rightarrow> Inl TypeError)
         else Inr host_valid)"

definition validate :: "SocketHandler \<Rightarrow> step \<times> SocketHandler" where
  "validate h =
     (case valid_headers (header (request h)) of
        Inl e \<Rightarrow> (Raised e, h)
      | Inr valid \<Rightarrow>
          if valid then (Done, h)
          else (Failed, throw ''Blocked Connection from banned source'' h))"

text \<open>
  \<open>parse_content\<close>: when a \<open>content-length\<close> is there and true, \<open>int(length)\<close> bytes are
  read as they are.
\<close>

definition parse_content :: "SocketHandler \<Rightarrow> step \<times> SocketHandler" where
  "parse_content h =
     (let len = map_of (header (request h)) ''content-length''
      in if truthy len
         then (case int_of (the len) of
                 None \<Rightarrow> (Raised ValueError, h)
               | Some n \<Rightarrow>
                   (case read_exact n h of
                      (Inl e, h1) \<Rightarrow> (Raised e, h1)
                    | (Inr None, h1) \<Rightarrow> (Failed, h1)
                    | (Inr (Some c), h1) \<Rightarrow>
                        (Done, h1\<lparr>request := (request h1)\<lparr>content := Some c\<rparr>\<rparr>)))
         else (Done, h))"

text \<open>
  \<open>parse_request\<close> returns the parsed request and installs a new one, returns nothing when
  a step failed, or lets an exception through. \<open>run_once\<close> is one turn of the loop of
  \<open>_run\<close>: the request it returns is the one handed to \<open>node.HANDLE\<close>.
\<close>

datatype parsed = Parsed Request | NoRequest | Exception py_error

definition parse_request :: "SocketHandler \<Rightarrow> (parsed \<times> SocketHandler) option" where
  "parse_request h =
     Option.bind (parse_request_line h)
       (\<lambda>r1. case r1 of
          (Failed, h1) \<Rightarrow> Some (NoRequest, h1)
        | (Raised e, h1) \<Rightarrow> Some (Exception e, h1)
        | (Done, h1) \<Rightarrow>
            Option.bind (parse_header h1)
              (\<lambda>r2. case r2 of
                 (Failed, h2) \<Rightarrow> Some (NoRequest, h2)
               | (Raised e, h2) \<Rightarrow> Some (Exception e, h2)
               | (Done, h2) \<Rightarrow>
                   (case validate h2 of
                      (Failed, h3) \<Rightarrow> Some (NoRequest, h3)
                    | (Raised e, h3) \<Rightarrow> Some (Exception e, h3)
                    | (Done, h3) \<Rightarrow>
                        (case parse_content h3 of
                           (Failed, h4) \<Rightarrow> Some (NoRequest, h4)
                         | (Raised e, h4) \<Rightarrow> Some (Exception e, h4)
                         | (Done, h4) \<Rightarrow>
                             Some (Parsed (request h4), h4\<lparr>request := new_request\<rparr>)))))"

definition run_once :: "SocketHandler \<Rightarrow> (Request option \<times> SocketHandler) option" where
  "run_once h =
     (if exit h then Some (None, h)
      else Option.bind (parse_request h)
             (\<lambda>r. case r of
                (Parsed rq, h1) \<Rightarrow> Some (Some rq, h1)
              | (NoRequest, h1) \<Rightarrow> Some (None, h1)
              | (Exception e, h1) \<Rightarrow>
                  Some (None, shutdown (throw ''Unexpected Exception in running socket'' h1))))"

section \<open>The request codec: encoding (Request, main/lib/lib.py)\<close>

text \<open>
  Building a request. \<open>add_request\<close> sets method, path and version; \<open>add_header\<close> stores the
  value under the keyword in lower case; \<open>add_response\<close> sets the code as given, looks its
  message up (an unknown code is a KeyError, returned here without the request) and adds the
  \<open>Server\<close> and \<open>Date\<close> headers, the text of \<open>get_date()\<close> being a parameter here; \<open>add_content\<close> stores the bytes and, unless
  the content is empty, the integer \<open>content-length\<close>. The content is text or bytes, one
  \<open>char\<close> per byte either way; the branch of \<open>add_content\<close> for any other type is outside the
  input type.
\<close>

definition add_request :: "string \<Rightarrow> string \<Rightarrow> string \<Rightarrow> Request \<Rightarrow> Request" where
  "add_request m p ver rq = rq\<lparr>method_rq := Some m, path := Some p, version := ver\<rparr>"

definition add_header :: "string \<Rightarrow> pyval \<Rightarrow> Request \<Rightarrow> Request" where
  "add_header keyword v rq = rq\<lparr>header := AList.update (lower keyword) v (header rq)\<rparr>"

definition messages :: "(int \<times> string) list" where
  "messages =
     [(200, ''OK''), (204, ''No Content''), (301, ''Moved Permanently''), (304, ''Not Modified''),
      (308, ''Permanent Redirect''), (404, ''Not Found''), (405, ''Method Not Allowed'')]"

definition add_response :: "string \<Rightarrow> int \<Rightarrow> Request \<Rightarrow> py_error + Request" where
  "add_response date c rq =
     (case map_of messages c of
        None \<Rightarrow> Inl KeyError
      | Some g \<Rightarrow>
          Inr (add_header ''Date'' (PStr date)
                 (add_header ''Server'' (PStr ''StreamingServer Python/3.7.3'')
                    (rq\<lparr>code := Some (PInt c), message := Some g\<rparr>))))"

definition add_content :: "string \<Rightarrow> Request \<Rightarrow> Request" where
  "add_content c rq =
     (let rq1 = (if c \<noteq> [] then add_header ''content-length'' (PInt (int (length c))) rq else rq)
      in rq1\<lparr>content := Some c\<rparr>)"

text \<open>
  \<open>"{}".format\<close> of an optional field prints \<open>None\<close> for a missing one. \<open>verify\<close> refuses a
  request with both a method and a code, or with headers and neither; \<open>get_data\<close> then
  returns nothing. \<open>format_request_line\<close> prints only method, path and version (or version,
  code and message): the query mapping is not printed. \<open>get_data\<close> appends the content when
  there is one, also an empty one, and a blank line otherwise.
\<close>

definition fmt :: "string option \<Rightarrow> string" where
  "fmt x = (case x of None \<Rightarrow> ''None'' | Some t \<Rightarrow> t)"

definition verify :: "Request \<Rightarrow> bool" where
  "verify rq =
     (if truthy_str (method_rq rq) \<and> truthy (code rq) then False
      else if \<not> truthy_str (method_rq rq) \<and> \<not> truthy (code rq) \<and> header rq \<noteq> [] then False
      else True)"

definition format_request_line :: "Request \<Rightarrow> string" where
  "format_request_line rq =
     (if truthy_str (method_rq rq)
      then fmt (method_rq rq) @ '' '' @ fmt (path rq) @ '' '' @ version rq @ CRLF
      else if truthy (code rq)
      then version rq @ '' '' @ fmt (map_option str_of (code rq)) @ '' '' @ fmt (message rq) @ CRLF
      else [])"

definition format_headers :: "Request \<Rightarrow> string" where
  "format_headers rq =
     concat (map (\<lambda>(k, v). k @ '': '' @ str_of v @ CRLF) (header rq))
       @ (if header rq \<noteq> [] then CRLF else [])"

definition get_data :: "Request \<Rightarrow> string option" where
  "get_data rq =
     (if \<not> verify rq then None
      else Some (format_request_line rq @ format_headers rq
                   @ (case content rq of Some c \<Rightarrow> c | None \<Rightarrow> CRLF)))"

text \<open>A handler that has just been created, with the given input waiting.\<close>

definition new_handler :: "string \<Rightarrow> SocketHandler" where
  "new_handler input =
     \<lparr> exit = False, close = False, errors = [], sock_name = ''SOCKET'', sock_id = ''s1'',
       pull_buffer = input, request = new_request \<rparr>"

text \<open>
  The header lines of a request as they are written, key and printed value, and the
  mapping the parser stores for such lines: every key in lower case, every value as text.
\<close>

definition wire :: "(string \<times> pyval) list \<Rightarrow> (string \<times> string) list" where
  "wire hs = map (\<lambda>(k, v). (k, str_of v)) hs"

definition lower_keys :: "(string \<times> string) list \<Rightarrow> (string \<times> pyval) list" where
  "lower_keys hs = map (\<lambda>(k, v). (lower k, PStr v)) hs"

text \<open>
  Well-formed requests: the requests whose fields the line format can carry. A token is a
  non-empty word without whitespace (the start line is cut at whitespace). A header key has
  no colon (the line is cut at its first colon) and no line feed and does not start with
  whitespace; a printed header value has no line feed and no whitespace at either end
  (both are stripped on arrival).

  A request has a method that does not start with \<open>HTTP/\<close> (the prefix by which the parser
  tells a response), a path without a question mark (\<open>self.path\<close> is the ``path string
  without queries''), and neither code nor message. A response has no method and no path, a
  version that starts with \<open>HTTP/\<close>, a code that is true and prints as a token, and a message
  that is a token. The query mapping is arbitrary.

  The keys differ in lower case (\<open>add_header\<close> and the parser both store keys in lower case),
  the headers pass \<open>validate\<close> (a denied request is not parsed further, by design of
  \<open>validate\<close>), and there are fewer than 32 of them. The content is absent or empty and then
  no \<open>content-length\<close> is announced, or it is not empty and the \<open>content-length\<close> header
  reads as its length, as \<open>add_content\<close> sets it.

  Three kinds of request are left out because the code mishandles them, against its own
  words; nothing is stated about them in the round trip below, and each is shown after it.
  A request with exactly 32 headers: \<open>parse_header\<close> runs \<open>for _ in range(32)\<close> and needs one
  more turn to see the blank line, although its comment and its message put the limit at 32.
  A response whose message has several words, as six of the seven messages of
  \<open>add_response\<close> have: \<open>parse_request_line\<close> asks for exactly three words, although its
  error text allows \<open>HTTP/X.X STATUS MESSAGE\<close>. A request with an empty content and no
  header: \<open>get_data\<close> writes the blank line that ends the headers only when there is a header
  or no content.
\<close>

definition wf_token :: "string \<Rightarrow> bool" where
  "wf_token t \<longleftrightarrow> t \<noteq> [] \<and> \<not> list_ex is_space t"

definition wf_header :: "string \<times> string \<Rightarrow> bool" where
  "wf_header kv =
     (case kv of (k, v) \<Rightarrow>
        CHR '':'' \<notin> set k \<and> CHR 0x0A \<notin> set k \<and> dropWhile is_space k = k
        \<and> CHR 0x0A \<notin> set v \<and> strip v = v)"

definition wf_start :: "Request \<Rightarrow> bool" where
  "wf_start rq =
     (case method_rq rq of
        Some m \<Rightarrow>
          wf_token m \<and> take 5 m \<noteq> ''HTTP/'' \<and> code rq = None \<and> message rq = None
          \<and> (case path rq of None \<Rightarrow> False | Some p \<Rightarrow> wf_token p \<and> CHR ''?'' \<notin> set p)
      | None \<Rightarrow>
          take 5 (version rq) = ''HTTP/'' \<and> path rq = None
          \<and> (case code rq of None \<Rightarrow> False | Some c \<Rightarrow> truthy (Some c) \<and> wf_token (str_of c))
          \<and> (case message rq of None \<Rightarrow> False | Some g \<Rightarrow> wf_token g))"

definition wf_content :: "Request \<Rightarrow> bool" where
  "wf_content rq =
     (let len = map_of (lower_keys (wire (header rq))) ''content-length''
      in case content rq of
           None \<Rightarrow> \<not> truthy len
         | Some c \<Rightarrow>
             if c = [] then \<not> truthy len \<and> header rq \<noteq> []
             else (case len of
                     None \<Rightarrow> False
                   | Some v \<Rightarrow> int_of v = Some (int (length c))))"

definition well_formed :: "Request \<Rightarrow> bool" where
  "well_formed rq \<longleftrightarrow>
     wf_token (version rq) \<and> wf_start rq
     \<and> list_all wf_header (wire (header rq))
     \<and> distinct (map fst (lower_keys (wire (header rq))))
     \<and> length (header rq) < 32
     \<and> valid_headers (lower_keys (wire (header rq))) = Inr True
     \<and> wf_content rq"

text \<open>What \<open>get_data\<close> leaves in the stream after the request proper.\<close>

definition trailer :: "Request \<Rightarrow> string" where
  "trailer rq = (if content rq = None \<and> header rq \<noteq> [] then CRLF else [])"

definition with_input :: "string \<Rightarrow> SocketHandler \<Rightarrow> SocketHandler" where
  "with_input input h = h\<lparr>pull_buffer := input\<rparr>"

text \<open>The equations of the two loops that may not return, for evaluation.\<close>

declare read_line_loop.simps [code] read_request_line.simps [code]


definition date_text :: string where
  "date_text = ''Thu, 18 Jun 2020 16:05:22 GMT''"




definition not_found_response :: Request where
  "not_found_response =
     \<lparr> method_rq = None, code = Some (PInt 404), message = Some ''Not Found'',
       version = ''HTTP/1.1'', path = None, queries = [],
       header = [(''server'', PStr ''StreamingServer Python/3.7.3''), (''date'', PStr date_text)],
       content = None \<rparr>"

definition bare_request :: Request where
  "bare_request =
     \<lparr> method_rq = Some ''GET'', code = None, message = None, version = ''HTTP/1.1'',
       path = Some ''/'', queries = [], header = [], content = Some [] \<rparr>"

definition long_header_request :: Request where
  "long_header_request =
     \<lparr> method_rq = Some ''GET'', code = None, message = None, version = ''HTTP/1.1'',
       path = Some ''/'', queries = [],
       header = [(''a'', PStr (replicate 1997 (CHR ''x'')))], content = None \<rparr>"

definition long_start_request :: Request where
  "long_start_request =
     \<lparr> method_rq = Some ''GET'', code = None, message = None, version = ''HTTP/1.1'',
       path = Some (CHR ''/'' # replicate 300 (CHR ''p'')), queries = [],
       header = [], content = None \<rparr>"

section \<open>GraphRingBuffer: resizing and the structural invariant\<close>

lemma py_slice_shrink:
  "0 < k \<Longrightarrow> k \<le> l \<Longrightarrow> l \<le> length col \<Longrightarrow>
   py_slice (- int k - (int (length col) - int l)) (int l) col = drop (l - k) (take l col)"
  by (simp add: py_slice_def py_index_def Let_def drop_take min_def nat_diff_distrib nat_add_distrib)

lemma set_size_shrink:
  assumes "ring_inv r" "0 < k" "k \<le> length_rb r" "k < size_rb r"
  shows "set_size k r = r\<lparr>size_rb := k, length_rb := k, tail := 0, head := 0,
           data := map (\<lambda>(name, pts). (name, drop (length_rb r - k) pts)) (points r)\<rparr>"
proof -
  have len: "\<And>name col. (name, col) \<in> set (data r) \<Longrightarrow> length col = size_rb r"
    using assms(1) by (auto simp: ring_inv_def list_all_iff)
  have lt: "k < size_rb r" "k \<noteq> size_rb r" "length_rb r \<le> size_rb r"
    using assms by (auto simp: ring_inv_def)
  have nl: "\<not> length_rb r < k" using assms(3) by simp
  have d: "map (\<lambda>(name, col). (name, py_slice (- int k - (int (size_rb r) - int (length_rb r)))
                (int (length_rb r)) col))
             (map (\<lambda>(name, col). (name, drop (tail r) col @ take (tail r) col)) (data r))
         = map (\<lambda>(name, pts). (name, drop (length_rb r - k) pts)) (points r)"
    unfolding points_def map_map
  proof (rule map_cong[OF refl])
    fix x assume x: "x \<in> set (data r)"
    obtain name col where xe: "x = (name, col)" by (cases x)
    define c where "c = drop (tail r) col @ take (tail r) col"
    have l: "length c = size_rb r"
      using len x xe assms(1) by (auto simp: ring_inv_def c_def)
    have "py_slice (- int k - (int (size_rb r) - int (length_rb r))) (int (length_rb r)) c
          = drop (length_rb r - k) (take (length_rb r) c)"
      using py_slice_shrink[OF assms(2,3), of c] l lt(3) by simp
    then show "((\<lambda>(name, col). (name, py_slice (- int k - (int (size_rb r) - int (length_rb r)))
                (int (length_rb r)) col)) \<circ> (\<lambda>(name, col). (name, drop (tail r) col @ take (tail r) col))) x
          = ((\<lambda>(name, pts). (name, drop (length_rb r - k) pts)) \<circ>
              (\<lambda>(name, col). (name, take (length_rb r) (drop (tail r) col @ take (tail r) col)))) x"
      unfolding c_def xe by simp
  qed
  show ?thesis
    using lt nl by (simp add: set_size_def Let_def sort_rb_def update_rb_def d[unfolded map_map])
qed


lemma sort_rb_tail0: "tail r = 0 \<Longrightarrow> sort_rb r = r"
  by (simp add: sort_rb_def)

lemma read_all_sorted_full:
  assumes "tail r = 0" "length_rb r = size_rb r" "head r = 0"
    "ev < length (read_events r)" "read_events r ! ev"
  shows "read_all r ev block =
           Some (Inr (Some (data r), r\<lparr>read_events := (read_events r)[ev := False]\<rparr>))"
  using assms by (simp add: read_all_def sort_rb_def update_rb_def Let_def)

lemma set_size_grow:
  assumes "ring_inv r" "size_rb r < k"
  shows "set_size k r = r\<lparr>size_rb := k, tail := 0, head := length_rb r,
           data := map (\<lambda>(name, col).
                     (name, (drop (tail r) col @ take (tail r) col) @ replicate (k - size_rb r) 0))
                   (data r)\<rparr>"
  using assms
  by (simp add: set_size_def Let_def sort_rb_def update_rb_def ring_inv_def comp_def case_prod_beta)

lemma points_grow:
  assumes "ring_inv r" "size_rb r < k"
  shows "points (set_size k r) = points r"
proof -
  have len: "\<And>name col. (name, col) \<in> set (data r) \<Longrightarrow> length col = size_rb r"
    using assms(1) by (auto simp: ring_inv_def list_all_iff)
  have le: "length_rb r \<le> size_rb r" "tail r < size_rb r"
    using assms(1) by (auto simp: ring_inv_def)
  show ?thesis
    unfolding set_size_grow[OF assms] points_def
    using le by (auto simp: comp_def dest!: len)
qed

lemma read_all_grow:
  assumes "ring_inv r" "size_rb r < k" "ev < length (read_events r)" "read_events r ! ev"
  shows "read_all (set_size k r) ev block =
           Some (Inr (Some (data (set_size k r)),
                      (set_size k r)\<lparr>read_events := (read_events r)[ev := False]\<rparr>))"
  using assms(3,4) assms(1,2) unfolding set_size_grow[OF assms(1,2)]
  by (simp add: read_all_def sort_rb_def update_rb_def Let_def ring_inv_def)


lemma list_all_update:
  "list_all P d \<Longrightarrow> P (k, v) \<Longrightarrow> list_all P (AList.update k v d)"
  by (induction d) (auto simp: AList.update.simps)

lemma store_cols_len:
  "list_all (\<lambda>(name, col). length col = n) d \<Longrightarrow> store_cols cs inp i h d = Inr d'
   \<Longrightarrow> list_all (\<lambda>(name, col). length col = n) d'"
proof (induction cs arbitrary: d)
  case Nil
  then show ?case by simp
next
  case (Cons c cs)
  from Cons.prems(2) obtain xs col where
    s: "map_of d c = Some col"
       "store_cols cs inp i h (AList.update c (col[h := xs ! i]) d) = Inr d'"
    by (auto split: option.splits if_splits)
  from s(1) have "(c, col) \<in> set d" by (rule map_of_SomeD)
  with Cons.prems(1) have "length col = n" by (auto simp: list_all_iff)
  then have "list_all (\<lambda>(name, col). length col = n) (AList.update c (col[h := xs ! i]) d)"
    using Cons.prems(1) by (intro list_all_update) auto
  from Cons.IH[OF this s(2)] show ?case .
qed

lemma write_row_inv:
  assumes "ring_inv r" "write_row r inp i = Inr r'"
  shows "ring_inv r' \<and> size_rb r' = size_rb r \<and> head r' = (head r + 1) mod size_rb r
         \<and> length_rb r' = min (size_rb r) (length_rb r + 1)"
proof -
  from assms(2) obtain d where d: "store_cols (names r) inp i (head r) (data r) = Inr d"
    by (auto simp: write_row_def split: sum.splits)
  have dl: "list_all (\<lambda>(name, col). length col = size_rb r) d"
    using store_cols_len[OF _ d] assms(1) by (simp add: ring_inv_def)
  have pos: "0 < size_rb r" using assms(1) by (simp add: ring_inv_def)
  show ?thesis
  proof (cases "size_rb r = length_rb r")
    case True
    then have r': "r' = r\<lparr>data := d, head := (head r + 1) mod size_rb r,
                          tail := (tail r + 1) mod size_rb r\<rparr>"
      using assms(2) d pos by (simp add: write_row_def Let_def)
    have "head r = tail r" using assms(1) True by (simp add: ring_inv_def)
    then show ?thesis using assms(1) dl True pos
      by (simp add: r' ring_inv_def mod_add_left_eq)
  next
    case False
    then have r': "r' = r\<lparr>data := d, head := (head r + 1) mod size_rb r,
                          length_rb := length_rb r + 1\<rparr>"
      using assms(2) d pos by (simp add: write_row_def Let_def)
    show ?thesis using assms(1) dl False pos
      by (simp add: r' ring_inv_def mod_Suc_eq add.commute add.left_commute)
  qed
qed

lemma write_rows_inv:
  "ring_inv r \<Longrightarrow> write_rows r inp is = Inr r'
   \<Longrightarrow> ring_inv r' \<and> size_rb r' = size_rb r \<and> head r' = (head r + length is) mod size_rb r
       \<and> length_rb r' = min (size_rb r) (length_rb r + length is)"
proof (induction "is" arbitrary: r)
  case Nil
  then show ?case by (simp add: ring_inv_def)
next
  case (Cons i "is")
  from Cons.prems(2) obtain r1 where r1: "write_row r inp i = Inr r1" "write_rows r1 inp is = Inr r'"
    by (auto split: sum.splits)
  note a = write_row_inv[OF Cons.prems(1) r1(1)]
  note b = Cons.IH[OF conjunct1[OF a] r1(2)]
  show ?case using a b by (simp add: mod_simps min_def)
qed

lemma sort_rb_len:
  assumes "list_all (\<lambda>(name, col). length col = n) (data r)"
  shows "list_all (\<lambda>(name, col). length col = n) (data (sort_rb r))"
proof -
  have len: "\<And>name col. (name, col) \<in> set (data r) \<Longrightarrow> length col = n"
    using assms by (auto simp: list_all_iff)
  show ?thesis
    by (auto simp: sort_rb_def list_all_iff dest!: len)
qed

lemma sort_rb_fields:
  "size_rb (sort_rb r) = size_rb r" "length_rb (sort_rb r) = length_rb r"
  "tail (sort_rb r) = tail r" "head (sort_rb r) = head r"
  "read_events (sort_rb r) = read_events r"
  by (simp_all add: sort_rb_def)

lemma update_sort_inv:
  assumes "0 < size_rb r" "length_rb r \<le> size_rb r"
    "list_all (\<lambda>(name, col). length col = size_rb r) (data r)"
  shows "ring_inv (update_rb (sort_rb r))"
  using assms sort_rb_len[OF assms(3)]
  by (auto simp: update_rb_def Let_def ring_inv_def sort_rb_fields)

lemma read_all_inv:
  assumes "ring_inv r" "read_all r ev block = Some (Inr (res, r'))"
  shows "ring_inv r'"
proof (cases "r' = r")
  case True
  then show ?thesis using assms(1) by simp
next
  case False
  then have "r' = update_rb (sort_rb (r\<lparr>read_events := (read_events r)[ev := False]\<rparr>))"
    using assms(2) by (auto simp: read_all_def Let_def split: if_splits)
  then show ?thesis
    using assms(1) unfolding \<open>r' = _\<close> by (intro update_sort_inv) (simp_all add: ring_inv_def)
qed

text \<open>
  Writing and the points held. One written row appends its value to every column's points
  and drops the oldest point when the ring is full; a batch leaves the newest \<open>size\<close> points
  of the old points followed by the batch. \<open>set_size\<close> keeps the invariant when the new size
  is at most the number of points held or at least the old size, and loses it in between.
\<close>

lemma rot_eq_rotate: "t \<le> length col \<Longrightarrow> drop t col @ take t col = rotate t col"
  by (cases "t = length col") (simp_all add: rotate_drop_take)

lemma mod_shift_neq:
  assumes "i < len" "len < n"
  shows "(t + i) mod n \<noteq> (t + len) mod (n::nat)"
proof
  assume e: "(t + i) mod n = (t + len) mod n"
  have "t + i \<le> t + len" using assms by simp
  from mod_eq_dvd_iff_nat[OF this, of n] e have "n dvd (t + len) - (t + i)" by simp
  then have "n dvd len - i" by simp
  moreover have "0 < len - i" "len - i < n" using assms by simp_all
  ultimately show False using nat_dvd_not_less by blast
qed

lemma take_rotate_append:
  assumes "length col = n" "t < n" "len < n"
  shows "take (Suc len) (rotate t (col[(t + len) mod n := x])) = take len (rotate t col) @ [x]"
proof (rule nth_equalityI)
  show "length (take (Suc len) (rotate t (col[(t + len) mod n := x])))
        = length (take len (rotate t col) @ [x])"
    using assms by simp
next
  fix i assume "i < length (take (Suc len) (rotate t (col[(t + len) mod n := x])))"
  then have i: "i < Suc len" using assms by simp
  then have in': "i < n" using assms by simp
  have l: "take (Suc len) (rotate t (col[(t + len) mod n := x])) ! i
           = col[(t + len) mod n := x] ! ((t + i) mod n)"
    using i in' assms by (simp add: nth_rotate)
  show "take (Suc len) (rotate t (col[(t + len) mod n := x])) ! i
        = (take len (rotate t col) @ [x]) ! i"
  proof (cases "i = len")
    case True
    then show ?thesis using l assms by (simp add: nth_append)
  next
    case False
    with i have il: "i < len" by simp
    from mod_shift_neq[OF il assms(3), of t] have "(t + len) mod n \<noteq> (t + i) mod n" by simp
    then show ?thesis using l il in' assms by (simp add: nth_append nth_rotate)
  qed
qed

lemma rotate_overwrite_oldest:
  assumes "length col = n" "t < n"
  shows "rotate ((t + 1) mod n) (col[t := x]) = tl (rotate t col) @ [x]"
proof -
  have c: "col = take t col @ col ! t # drop (Suc t) col"
    using assms by (simp add: id_take_nth_drop)
  have r0: "rotate t xs = drop t xs @ take t xs" if "t < length xs" for xs :: "'a list"
    using that by (simp add: rotate_drop_take)
  have u: "col[t := x] = take t col @ x # drop (Suc t) col"
    using assms by (simp add: upd_conv_take_nth_drop)
  have "rotate ((t + 1) mod n) (col[t := x]) = rotate (Suc t) (col[t := x])"
    using assms rotate_conv_mod[of "Suc t" "col[t := x]"] by simp
  also have "\<dots> = rotate1 (rotate t (col[t := x]))" by simp
  also have "rotate t (col[t := x]) = x # drop (Suc t) col @ take t col"
    using assms by (simp add: r0 u)
  also have "rotate1 (x # drop (Suc t) col @ take t col) = (drop (Suc t) col @ take t col) @ [x]"
    by simp
  also have "drop (Suc t) col @ take t col = tl (rotate t col)"
    using assms by (simp add: r0 drop_Suc tl_drop)
  finally show ?thesis .
qed

lemma update_distinct_map:
  "distinct (map fst d) \<Longrightarrow> map_of d c = Some col \<Longrightarrow>
   AList.update c v d = map (\<lambda>(name, col'). (name, if name = c then v else col')) d"
proof (induction d)
  case Nil
  then show ?case by simp
next
  case (Cons p d)
  obtain k x where p: "p = (k, x)" by (cases p)
  show ?case
  proof (cases "k = c")
    case True
    with Cons.prems p have "c \<notin> fst ` set d" by auto
    then have "map (\<lambda>(name, col'). (name, if name = c then v else col')) d = d"
      by (induction d) auto
    with True p show ?thesis by (simp add: AList.update.simps)
  next
    case False
    with Cons p show ?thesis by (simp add: AList.update.simps)
  qed
qed

lemma store_cols_data:
  "distinct (map fst d) \<Longrightarrow> store_cols cs inp i h d = Inr d' \<Longrightarrow>
   d' = map (\<lambda>(name, col). (name, if name \<in> set cs then col[h := the (map_of inp name) ! i] else col)) d"
proof (induction cs arbitrary: d)
  case Nil
  then show ?case by simp
next
  case (Cons c cs)
  from Cons.prems(2) obtain xs col where
    s: "map_of inp c = Some xs" "map_of d c = Some col"
       "store_cols cs inp i h (AList.update c (col[h := xs ! i]) d) = Inr d'"
    by (auto split: option.splits if_splits)
  let ?d1 = "AList.update c (col[h := xs ! i]) d"
  have d1: "?d1 = map (\<lambda>(name, col'). (name, if name = c then col[h := xs ! i] else col')) d"
    by (rule update_distinct_map[OF Cons.prems(1) s(2)])
  have keys: "map fst ?d1 = map fst d"
    unfolding d1 by (simp add: comp_def case_prod_beta)
  have col: "\<And>col'. (c, col') \<in> set d \<Longrightarrow> col' = col"
    using Cons.prems(1) s(2) by (metis map_of_is_SomeI option.inject)
  from Cons.IH[OF _ s(3)] Cons.prems(1) keys
  have "d' = map (\<lambda>(name, col). (name, if name \<in> set cs then col[h := the (map_of inp name) ! i] else col)) ?d1"
    by simp
  also have "\<dots> = map (\<lambda>(name, col). (name, if name \<in> set (c # cs) then col[h := the (map_of inp name) ! i] else col)) d"
    unfolding d1 map_map
    by (rule map_cong[OF refl]) (auto simp: s(1) dest: col)
  finally show ?case .
qed

lemma points_write_row:
  assumes inv: "ring_inv r" and keys: "distinct (map fst (data r))"
    and named: "fst ` set (data r) \<subseteq> set (names r)"
    and w: "write_row r inp i = Inr r'"
  shows "points r' = map (\<lambda>(name, pts).
                        (name, (if length_rb r = size_rb r then tl pts else pts)
                                 @ [the (map_of inp name) ! i])) (points r)"
    and "map fst (data r') = map fst (data r)" and "names r' = names r"
proof -
  from w obtain d where d: "store_cols (names r) inp i (head r) (data r) = Inr d"
    by (auto simp: write_row_def split: sum.splits)
  have pos: "0 < size_rb r" and le: "length_rb r \<le> size_rb r" and tl: "tail r < size_rb r"
    and hd: "head r = (tail r + length_rb r) mod size_rb r"
    using inv by (simp_all add: ring_inv_def)
  have len: "\<And>name col. (name, col) \<in> set (data r) \<Longrightarrow> length col = size_rb r"
    using inv by (auto simp: ring_inv_def list_all_iff)
  have inn: "\<And>name col. (name, col) \<in> set (data r) \<Longrightarrow> name \<in> set (names r)"
    using named by force
  have dd: "d = map (\<lambda>(name, col). (name, col[head r := the (map_of inp name) ! i])) (data r)"
    unfolding store_cols_data[OF keys d]
    by (rule map_cong[OF refl]) (auto dest: inn)
  show k: "map fst (data r') = map fst (data r)" and "names r' = names r"
    using w d pos unfolding dd
    by (auto simp: write_row_def Let_def comp_def case_prod_beta split: if_splits)
  show "points r' = map (\<lambda>(name, pts).
                        (name, (if length_rb r = size_rb r then tl pts else pts)
                                 @ [the (map_of inp name) ! i])) (points r)"
  proof (cases "size_rb r = length_rb r")
    case True
    then have r': "r' = r\<lparr>data := d, head := (head r + 1) mod size_rb r,
                          tail := (tail r + 1) mod size_rb r\<rparr>"
      using w d pos by (simp add: write_row_def Let_def)
    have ht: "head r = tail r" using hd True tl by simp
    have t1: "(tail r + 1) mod size_rb r \<le> size_rb r" using pos by (simp add: less_imp_le)
    have "points r' = map (\<lambda>(name, col). (name, take (size_rb r)
                        (drop ((tail r + 1) mod size_rb r) col
                           @ take ((tail r + 1) mod size_rb r) col))) d"
      using True by (simp add: r' points_def)
    also have "\<dots> = map (\<lambda>(name, pts).
                        (name, (if length_rb r = size_rb r then tl pts else pts)
                                 @ [the (map_of inp name) ! i])) (points r)"
      unfolding points_def dd map_map
    proof (rule map_cong[OF refl])
      fix x assume x: "x \<in> set (data r)"
      obtain name col where xe: "x = (name, col)" by (cases x)
      have l: "length col = size_rb r" using len x xe by simp
      have a: "drop ((tail r + 1) mod size_rb r) (col[tail r := the (map_of inp name) ! i])
                 @ take ((tail r + 1) mod size_rb r) (col[tail r := the (map_of inp name) ! i])
               = tl (rotate (tail r) col) @ [the (map_of inp name) ! i]"
        using rot_eq_rotate[of "(tail r + 1) mod size_rb r" "col[tail r := the (map_of inp name) ! i]"]
          rotate_overwrite_oldest[OF l tl] t1 l by simp
      have b: "take (length_rb r) (drop (tail r) col @ take (tail r) col) = rotate (tail r) col"
        using rot_eq_rotate[of "tail r" col] tl l True by simp
      have c: "take (size_rb r) (tl (rotate (tail r) col) @ [the (map_of inp name) ! i])
               = tl (rotate (tail r) col) @ [the (map_of inp name) ! i]"
        using l pos by simp
      show "((\<lambda>(name, col). (name, take (size_rb r)
                        (drop ((tail r + 1) mod size_rb r) col
                           @ take ((tail r + 1) mod size_rb r) col)))
             \<circ> (\<lambda>(name, col). (name, col[head r := the (map_of inp name) ! i]))) x
          = ((\<lambda>(name, pts). (name, (if length_rb r = size_rb r then tl pts else pts)
                                 @ [the (map_of inp name) ! i]))
             \<circ> (\<lambda>(name, col). (name, take (length_rb r) (drop (tail r) col @ take (tail r) col)))) x"
        unfolding xe comp_def prod.case ht a b c using True by simp
    qed
    finally show ?thesis .
  next
    case False
    then have r': "r' = r\<lparr>data := d, head := (head r + 1) mod size_rb r,
                          length_rb := length_rb r + 1\<rparr>"
      using w d pos by (simp add: write_row_def Let_def)
    have lt: "length_rb r < size_rb r" using False le by simp
    have "points r' = map (\<lambda>(name, col). (name, take (Suc (length_rb r))
                        (drop (tail r) col @ take (tail r) col))) d"
      by (simp add: r' points_def)
    also have "\<dots> = map (\<lambda>(name, pts).
                        (name, (if length_rb r = size_rb r then tl pts else pts)
                                 @ [the (map_of inp name) ! i])) (points r)"
      unfolding points_def dd map_map
    proof (rule map_cong[OF refl])
      fix x assume x: "x \<in> set (data r)"
      obtain name col where xe: "x = (name, col)" by (cases x)
      have l: "length col = size_rb r" using len x xe by simp
      have b: "drop (tail r) xs @ take (tail r) xs = rotate (tail r) xs"
        if "length xs = size_rb r" for xs :: "'a list"
        using rot_eq_rotate[of "tail r" xs] tl that by simp
      have a0: "take (Suc (length_rb r))
                 (rotate (tail r) (col[(tail r + length_rb r) mod size_rb r := the (map_of inp name) ! i]))
               = take (length_rb r) (rotate (tail r) col) @ [the (map_of inp name) ! i]"
        by (rule take_rotate_append[OF l tl lt])
      have a: "take (Suc (length_rb r))
                 (drop (tail r) (col[head r := the (map_of inp name) ! i])
                    @ take (tail r) (col[head r := the (map_of inp name) ! i]))
               = take (length_rb r) (rotate (tail r) col) @ [the (map_of inp name) ! i]"
        using a0 b[of "col[head r := the (map_of inp name) ! i]"] l hd by simp
      have b': "drop (tail r) col @ take (tail r) col = rotate (tail r) col"
        using b[OF l] .
      show "((\<lambda>(name, col). (name, take (Suc (length_rb r))
                        (drop (tail r) col @ take (tail r) col)))
             \<circ> (\<lambda>(name, col). (name, col[head r := the (map_of inp name) ! i]))) x
          = ((\<lambda>(name, pts). (name, (if length_rb r = size_rb r then tl pts else pts)
                                 @ [the (map_of inp name) ! i]))
             \<circ> (\<lambda>(name, col). (name, take (length_rb r) (drop (tail r) col @ take (tail r) col)))) x"
        unfolding xe comp_def prod.case a b' using lt by simp
    qed
    finally show ?thesis .
  qed
qed

lemma points_length:
  assumes "ring_inv r" "(name, pts) \<in> set (points r)"
  shows "length pts = length_rb r"
proof -
  from assms(2) obtain col where c: "(name, col) \<in> set (data r)"
      "pts = take (length_rb r) (drop (tail r) col @ take (tail r) col)"
    by (auto simp: points_def)
  have "length col = size_rb r" using assms(1) c(1) by (auto simp: ring_inv_def list_all_iff)
  then show ?thesis using assms(1) c(2) by (auto simp: ring_inv_def)
qed

lemma keep_newest_step:
  assumes "length pts \<le> n" "0 < n"
  shows "drop (length ((if length pts = n then tl pts else pts) @ [x]) + k - n)
           (((if length pts = n then tl pts else pts) @ [x]) @ xs)
         = drop (length pts + Suc k - n) (pts @ x # xs)"
proof (cases "length pts = n")
  case True
  then have ne: "pts \<noteq> []" using assms(2) by auto
  have "length (tl pts) = n - 1" using True by simp
  with assms(2) have l1: "length (tl pts @ [x]) + k - n = k" by simp
  have l2: "length pts + Suc k - n = Suc k" using True by simp
  have "drop (Suc k) (pts @ x # xs) = drop k (tl (pts @ x # xs))"
    by (rule drop_Suc)
  also have "tl (pts @ x # xs) = (tl pts @ [x]) @ xs" using ne by simp
  finally have "drop k ((tl pts @ [x]) @ xs) = drop (Suc k) (pts @ x # xs)" by simp
  then show ?thesis unfolding if_P[OF True] l1 l2 .
next
  case False
  then show ?thesis by simp
qed

lemma points_write_rows:
  assumes "ring_inv r" "distinct (map fst (data r))" "fst ` set (data r) \<subseteq> set (names r)"
    "write_rows r inp is = Inr r'"
  shows "points r' = map (\<lambda>(name, pts).
            (name, drop (length pts + length is - size_rb r)
                     (pts @ map (\<lambda>i. the (map_of inp name) ! i) is))) (points r)"
  using assms
proof (induction "is" arbitrary: r)
  case Nil
  then have r: "r' = r" by simp
  have "map (\<lambda>(name, pts). (name, drop (length pts + length ([]::nat list) - size_rb r)
                     (pts @ map (\<lambda>i. the (map_of inp name) ! i) []))) (points r) = points r"
  proof (rule map_idI)
    fix x assume x: "x \<in> set (points r)"
    obtain name pts where xe: "x = (name, pts)" by (cases x)
    have "length pts = length_rb r" using points_length[OF Nil.prems(1)] x xe by simp
    then have "length pts \<le> size_rb r" using Nil.prems(1) by (simp add: ring_inv_def)
    then show "(case x of (name, pts) \<Rightarrow> (name, drop (length pts + length ([]::nat list) - size_rb r)
                     (pts @ map (\<lambda>i. the (map_of inp name) ! i) []))) = x"
      by (simp add: xe)
  qed
  then show ?case unfolding r by simp
next
  case (Cons i "is")
  from Cons.prems(4) obtain r1 where r1: "write_row r inp i = Inr r1" "write_rows r1 inp is = Inr r'"
    by (auto split: sum.splits)
  note inv1 = write_row_inv[OF Cons.prems(1) r1(1)]
  note p1 = points_write_row[OF Cons.prems(1,2,3) r1(1)]
  have k1: "distinct (map fst (data r1))" using p1(2) Cons.prems(2) by simp
  have n1: "fst ` set (data r1) \<subseteq> set (names r1)"
  proof -
    have "fst ` set (data r1) = set (map fst (data r1))" by simp
    also have "\<dots> = fst ` set (data r)" unfolding p1(2) by simp
    finally show ?thesis using Cons.prems(3) p1(3) by simp
  qed
  have pos: "0 < size_rb r" using Cons.prems(1) by (simp add: ring_inv_def)
  have le: "length_rb r \<le> size_rb r" using Cons.prems(1) by (simp add: ring_inv_def)
  have "points r' = map (\<lambda>(name, pts).
            (name, drop (length pts + length is - size_rb r1)
                     (pts @ map (\<lambda>i. the (map_of inp name) ! i) is))) (points r1)"
    by (rule Cons.IH[OF conjunct1[OF inv1] k1 n1 r1(2)])
  also have "\<dots> = map (\<lambda>(name, pts).
            (name, drop (length pts + length (i # is) - size_rb r)
                     (pts @ map (\<lambda>i. the (map_of inp name) ! i) (i # is)))) (points r)"
    unfolding p1(1) map_map
  proof (rule map_cong[OF refl])
    fix x assume x: "x \<in> set (points r)"
    obtain name pts where xe: "x = (name, pts)" by (cases x)
    have l: "length pts = length_rb r" using points_length[OF Cons.prems(1)] x xe by simp
    have s: "size_rb r1 = size_rb r" using inv1 by simp
    have "drop (length ((if length pts = size_rb r then tl pts else pts) @ [the (map_of inp name) ! i])
                  + length is - size_rb r)
            (((if length pts = size_rb r then tl pts else pts) @ [the (map_of inp name) ! i])
               @ map (\<lambda>i. the (map_of inp name) ! i) is)
          = drop (length pts + Suc (length is) - size_rb r)
              (pts @ the (map_of inp name) ! i # map (\<lambda>i. the (map_of inp name) ! i) is)"
      using le pos l by (intro keep_newest_step) simp_all
    then show "((\<lambda>(name, pts). (name, drop (length pts + length is - size_rb r1)
                     (pts @ map (\<lambda>i. the (map_of inp name) ! i) is)))
                \<circ> (\<lambda>(name, pts). (name, (if length_rb r = size_rb r then tl pts else pts)
                                 @ [the (map_of inp name) ! i]))) x
               = (\<lambda>(name, pts). (name, drop (length pts + length (i # is) - size_rb r)
                     (pts @ map (\<lambda>i. the (map_of inp name) ! i) (i # is)))) x"
      unfolding xe comp_def prod.case s l[symmetric] by simp
  qed
  finally show ?case .
qed

lemma set_size_inv:
  assumes "ring_inv r" "0 < k" "k \<le> length_rb r \<or> size_rb r \<le> k"
  shows "ring_inv (set_size k r)"
proof -
  have le: "length_rb r \<le> size_rb r" using assms(1) by (simp add: ring_inv_def)
  consider "k = size_rb r" | "k \<le> length_rb r" "k < size_rb r" | "size_rb r < k"
    using assms(3) le by linarith
  then show ?thesis
  proof cases
    case 1
    then show ?thesis using assms(1) by (simp add: set_size_def)
  next
    case 2
    have "list_all (\<lambda>(name, col). length col = k)
            (map (\<lambda>(name, pts). (name, drop (length_rb r - k) pts)) (points r))"
      using 2(1) points_length[OF assms(1)] by (auto simp: list_all_iff)
    then show ?thesis
      unfolding set_size_shrink[OF assms(1,2) 2] using assms(2) by (simp add: ring_inv_def)
  next
    case 3
    have len: "\<And>name col. (name, col) \<in> set (data r) \<Longrightarrow> length col = size_rb r"
      using assms(1) by (auto simp: ring_inv_def list_all_iff)
    have tl: "tail r < size_rb r" using assms(1) by (simp add: ring_inv_def)
    have "list_all (\<lambda>(name, col). length col = k)
            (map (\<lambda>(name, col).
                     (name, (drop (tail r) col @ take (tail r) col) @ replicate (k - size_rb r) 0))
                   (data r))"
      using 3 tl by (auto simp: list_all_iff dest!: len)
    then show ?thesis
      unfolding set_size_grow[OF assms(1) 3] using 3 le assms(2) by (simp add: ring_inv_def)
  qed
qed

lemma set_size_gap:
  assumes "ring_inv r" "length_rb r < k" "k < size_rb r"
  shows "set_size k r = r\<lparr>size_rb := k, tail := 0, head := length_rb r, data := points r\<rparr>"
proof -
  have len: "\<And>name col. (name, col) \<in> set (data r) \<Longrightarrow> length col = size_rb r"
    using assms(1) by (auto simp: ring_inv_def list_all_iff)
  have tl: "tail r < size_rb r" using assms(1) by (simp add: ring_inv_def)
  have sl: "py_slice (- int k - (int (size_rb r) - int (length_rb r))) (int (length_rb r)) c
            = take (length_rb r) c" if "length c = size_rb r" for c :: "'a list"
    using that assms(2,3) by (simp add: py_slice_def py_index_def Let_def)
  have d: "map (\<lambda>(name, col). (name, py_slice (- int k - (int (size_rb r) - int (length_rb r)))
                (int (length_rb r)) col))
             (map (\<lambda>(name, col). (name, drop (tail r) col @ take (tail r) col)) (data r))
         = points r"
    unfolding points_def map_map
  proof (rule map_cong[OF refl])
    fix x assume x: "x \<in> set (data r)"
    obtain name col where xe: "x = (name, col)" by (cases x)
    have "length (drop (tail r) col @ take (tail r) col) = size_rb r"
      using len x xe tl by auto
    from sl[OF this]
    show "((\<lambda>(name, col). (name, py_slice (- int k - (int (size_rb r) - int (length_rb r)))
                (int (length_rb r)) col)) \<circ> (\<lambda>(name, col). (name, drop (tail r) col @ take (tail r) col))) x
          = (case x of (name, col) \<Rightarrow>
               (name, take (length_rb r) (drop (tail r) col @ take (tail r) col)))"
      unfolding xe by simp
  qed
  show ?thesis
    using assms(2,3) by (simp add: set_size_def Let_def sort_rb_def update_rb_def d[unfolded map_map])
qed

lemma set_size_gap_breaks:
  assumes "ring_inv r" "length_rb r < k" "k < size_rb r" "data r \<noteq> []"
  shows "\<not> ring_inv (set_size k r)"
proof -
  from assms(4) obtain name col where c: "(name, col) \<in> set (data r)"
    by (cases "data r") auto
  define pts where "pts = take (length_rb r) (drop (tail r) col @ take (tail r) col)"
  have m: "(name, pts) \<in> set (points r)"
    using c unfolding pts_def by (force simp: points_def)
  from points_length[OF assms(1) m] assms(2) have "length pts \<noteq> k" by simp
  with m have "\<exists>x\<in>set (points r). \<not> (case x of (name, col) \<Rightarrow> length col = k)"
    by (intro bexI[of _ "(name, pts)"]) simp_all
  then show ?thesis
    unfolding set_size_gap[OF assms(1,2,3)] by (auto simp: ring_inv_def list_all_iff)
qed

lemma fold_update_props:
  assumes "distinct (map fst acc)" "list_all (\<lambda>(name, col). length col = n) acc"
    "fst ` set acc \<subseteq> S"  "set cs \<subseteq> S"
  shows "distinct (map fst (fold (\<lambda>name d. AList.update name (replicate n z) d) cs acc))
         \<and> list_all (\<lambda>(name, col). length col = n)
              (fold (\<lambda>name d. AList.update name (replicate n z) d) cs acc)
         \<and> fst ` set (fold (\<lambda>name d. AList.update name (replicate n z) d) cs acc) \<subseteq> S"
  using assms
proof (induction cs arbitrary: acc)
  case Nil
  then show ?case by simp
next
  case (Cons c cs)
  have a: "distinct (map fst (AList.update c (replicate n z) acc))"
    using Cons.prems(1) by (rule distinct_update)
  have b: "list_all (\<lambda>(name, col). length col = n) (AList.update c (replicate n z) acc)"
    using Cons.prems(2) by (intro list_all_update) simp_all
  have "fst ` set (AList.update c (replicate n z) acc) = set (map fst (AList.update c (replicate n z) acc))"
    by simp
  also have "\<dots> \<subseteq> insert c (fst ` set acc)"
    by (auto simp: update_keys)
  finally have c: "fst ` set (AList.update c (replicate n z) acc) \<subseteq> S"
    using Cons.prems(3,4) by auto
  from Cons.IH[OF a b c] Cons.prems(4) show ?case by simp
qed

lemma init_rb_inv:
  assumes "0 < n"
  shows "ring_inv (init_rb column_names n :: ('a::zero) GraphRingBuffer)"
    and "distinct (map fst (data (init_rb column_names n :: 'a GraphRingBuffer)))"
    and "fst ` set (data (init_rb column_names n :: 'a GraphRingBuffer))
           \<subseteq> set (names (init_rb column_names n :: 'a GraphRingBuffer))"
    and "points (init_rb column_names n :: 'a GraphRingBuffer)
         = map (\<lambda>(name, col). (name, [])) (data (init_rb column_names n :: 'a GraphRingBuffer))"
proof -
  from fold_update_props[where acc="[]" and n=n and S="set column_names" and cs=column_names
         and z="0::'a"]
  have p: "distinct (map fst (fold (\<lambda>name d. AList.update name (replicate n (0::'a)) d) column_names []))"
    "list_all (\<lambda>(name, col). length col = n)
       (fold (\<lambda>name d. AList.update name (replicate n (0::'a)) d) column_names [])"
    "fst ` set (fold (\<lambda>name d. AList.update name (replicate n (0::'a)) d) column_names [])
       \<subseteq> set column_names"
    by simp_all
  show "ring_inv (init_rb column_names n :: 'a GraphRingBuffer)"
    using assms p(2) by (simp add: ring_inv_def init_rb_def)
  show "distinct (map fst (data (init_rb column_names n :: 'a GraphRingBuffer)))"
    using p(1) by (simp add: init_rb_def)
  show "fst ` set (data (init_rb column_names n :: 'a GraphRingBuffer))
          \<subseteq> set (names (init_rb column_names n :: 'a GraphRingBuffer))"
    using p(3) by (simp add: init_rb_def)
  show "points (init_rb column_names n :: 'a GraphRingBuffer)
         = map (\<lambda>(name, col). (name, [])) (data (init_rb column_names n :: 'a GraphRingBuffer))"
    by (simp add: points_def init_rb_def)
qed

text \<open>
  Where resizing does keep the newest points. On a ring that satisfies the structural
  invariant and holds \<open>n = length\<close> points, for a reader whose event is set: after
  \<open>set_size k\<close> with \<open>0 < k < n\<close>, \<open>read_all\<close> returns, for every column, exactly the last
  \<open>k\<close> points, oldest surviving point at index 0; after \<open>set_size k\<close> with \<open>k\<close> above the
  current size, the points held are unchanged and \<open>read_all\<close> returns every column in
  chronological order followed by \<open>k - size\<close> zeros. The invariant is a real restriction:
  \<open>set_size\<close> itself leaves rings that do not satisfy it (\<open>set_size_gap_breaks\<close>).
\<close>

lemma set_size_then_read_all:
  assumes "ring_inv r" "ev < length (read_events r)" "read_events r ! ev"
  shows "(0 < k \<and> k < length_rb r \<longrightarrow>
            (\<exists>r'. read_all (set_size k r) ev block =
                    Some (Inr (Some (map (\<lambda>(name, pts). (name, drop (length_rb r - k) pts))
                                      (points r)), r'))))
       \<and> (size_rb r < k \<longrightarrow>
            points (set_size k r) = points r \<and>
            (\<exists>r'. read_all (set_size k r) ev block =
                    Some (Inr (Some (map (\<lambda>(name, col).
                                 (name, (drop (tail r) col @ take (tail r) col)
                                          @ replicate (k - size_rb r) 0)) (data r)), r'))))"
proof (intro conjI impI)
  assume k: "0 < k \<and> k < length_rb r"
  moreover have "length_rb r \<le> size_rb r" using assms(1) by (simp add: ring_inv_def)
  ultimately have s: "set_size k r = r\<lparr>size_rb := k, length_rb := k, tail := 0, head := 0,
           data := map (\<lambda>(name, pts). (name, drop (length_rb r - k) pts)) (points r)\<rparr>"
    using set_size_shrink[OF assms(1), of k] by simp
  show "\<exists>r'. read_all (set_size k r) ev block =
           Some (Inr (Some (map (\<lambda>(name, pts). (name, drop (length_rb r - k) pts))
                             (points r)), r'))"
    unfolding s using assms(2,3) by (simp add: read_all_sorted_full)
next
  assume k: "size_rb r < k"
  show "points (set_size k r) = points r"
    by (rule points_grow[OF assms(1) k])
next
  assume k: "size_rb r < k"
  show "\<exists>r'. read_all (set_size k r) ev block =
           Some (Inr (Some (map (\<lambda>(name, col).
                        (name, (drop (tail r) col @ take (tail r) col)
                                 @ replicate (k - size_rb r) 0)) (data r)), r'))"
    unfolding read_all_grow[OF assms(1) k assms(2,3)]
    by (simp add: set_size_grow[OF assms(1) k])
qed

lemma wrapped_ring_resized:
  "ring_inv wrapped_ring \<and> points wrapped_ring = [(''y'', [10, 20, 30])]
   \<and> map_option (map_sum id fst) (read_all (set_size 2 wrapped_ring) 0 False)
       = Some (Inr (Some [(''y'', [20, 30])]))
   \<and> points (set_size 5 wrapped_ring) = [(''y'', [10, 20, 30])]
   \<and> map_option (map_sum id fst) (read_all (set_size 5 wrapped_ring) 0 False)
       = Some (Inr (Some [(''y'', [10, 20, 30, 0, 0])]))"
  by code_simp

text \<open>
  C7: after \<open>set_size k\<close> on a ring holding \<open>n > k\<close> points, \<open>read_all\<close> is to return the
  last \<open>k\<close> of them. The code does not, at two inputs built by the public calls alone.

  A ring of capacity 6, one reader, the points 1, 2, 3 written, then \<open>set_size 4\<close> and
  \<open>set_size 2\<close>. The first resize cuts the column to \<open>col[-7:3]\<close>, the three points without
  any padding, while \<open>size\<close> becomes 4. The second computes \<open>extra = 4 - 3\<close> for a column
  that has no spare entry and cuts \<open>col[-3:3]\<close>, again all three points: \<open>length\<close> is now
  2 and \<open>read_all\<close> returns 1, 2, 3 where the last two points are 2, 3.

  A ring of capacity 3 filled with 1, 2, 3, then \<open>set_size 0\<close>: \<open>extra\<close> is 0, the slice
  \<open>col[-0:3]\<close> starts at index 0 and keeps every point, and \<open>read_all\<close> returns 1, 2, 3
  where the last 0 points are the empty column. (On the ring of capacity 6, which is not
  full, \<open>set_size 0\<close> does empty the column.)
\<close>

theorem set_size_keeps_older_points:
  "fst (get_read_lock (init_rb [''y''] 6 :: int GraphRingBuffer)) = 0
   \<and> write_rb (snd (get_read_lock (init_rb [''y''] 6))) [(''y'', [1, 2, 3])]
       = Inr three_point_ring
   \<and> points three_point_ring = [(''y'', [1, 2, 3])]
   \<and> data (set_size 4 three_point_ring) = [(''y'', [1, 2, 3])]
   \<and> length_rb (set_size 4 three_point_ring) = 3
   \<and> length_rb (set_size 2 (set_size 4 three_point_ring)) = 2
   \<and> map_option (map_sum id fst) (read_all (set_size 2 (set_size 4 three_point_ring)) 0 False)
       = Some (Inr (Some [(''y'', [1, 2, 3])]))
   \<and> write_rb (snd (get_read_lock (init_rb [''y''] 3))) [(''y'', [1, 2, 3])] = Inr full_ring
   \<and> map_option (map_sum id fst) (read_all (set_size 0 full_ring) 0 False)
       = Some (Inr (Some [(''y'', [1, 2, 3])]))
   \<and> map_option (map_sum id fst) (read_all (set_size 0 three_point_ring) 0 False)
       = Some (Inr (Some [(''y'', [])]))"
  by code_simp

text \<open>
  C10 at a ring that holds fewer points than the new, smaller size. \<open>set_size 2\<close> on a ring of
  capacity 4 holding one point cuts the column to one element while \<open>size\<close> becomes 2: the
  invariant (every column has \<open>size\<close> elements) is lost, and the next write fails with an
  IndexError at \<open>self.data[col][self.head]\<close>. (So it is for every new size strictly between
  the number of points held and the old size: \<open>set_size_gap_breaks\<close>. Writes, reads and the
  other resizes keep the invariant: \<open>write_rows_inv\<close>, \<open>read_all_inv\<close>, \<open>set_size_inv\<close>.)
\<close>

theorem set_size_breaks_invariant:
  "write_rb (init_rb [''y''] 4) [(''y'', [7])] = Inr one_point_ring
   \<and> ring_inv one_point_ring
   \<and> data (set_size 2 one_point_ring) = [(''y'', [7])]
   \<and> size_rb (set_size 2 one_point_ring) = 2
   \<and> \<not> ring_inv (set_size 2 one_point_ring)
   \<and> write_rb (set_size 2 one_point_ring) [(''y'', [8])] = Inl IndexError"
  by code_simp

section \<open>The playback clock\<close>

lemma frozen_step:
  assumes "\<not> playback_active d" "\<not> is_start op"
  shows "\<not> playback_active (apply_pb d op) \<and> relative_stop_time (apply_pb d op) = relative_stop_time d"
  using assms by (cases op) (simp_all add: stop_pb_def time_pb_def is_streaming_def)

lemma frozen_ops:
  "\<not> playback_active d \<Longrightarrow> list_all (\<lambda>op. \<not> is_start op) ops \<Longrightarrow>
   \<not> playback_active (foldl apply_pb d ops)
   \<and> relative_stop_time (foldl apply_pb d ops) = relative_stop_time d"
proof (induction ops arbitrary: d)
  case Nil
  then show ?case by simp
next
  case (Cons op ops)
  from Cons.prems have s: "\<not> playback_active (apply_pb d op)"
      "relative_stop_time (apply_pb d op) = relative_stop_time d"
    using frozen_step[of d op] by simp_all
  from Cons.IH[OF s(1)] Cons.prems(2) s(2) show ?case by simp
qed

lemma time_pb_paused: "\<not> playback_active d \<Longrightarrow> time_pb d t = relative_stop_time d"
  by (simp add: time_pb_def is_streaming_def)

text \<open>
  C6. While playback is active \<open>time()\<close> is
  \<open>relative_stop_time + (wall_now - start_time) * playback_speed\<close>, both wall-clock values in
  milliseconds; while paused it is \<open>relative_stop_time\<close>; \<open>start()\<close> on an active store
  returns the store unchanged; and after \<open>stop()\<close> at \<open>t0\<close>, whatever clock readings,
  further stops and speed changes follow, as long as none of them is a \<open>start()\<close>, a
  reading of the clock at any later wall time \<open>t1\<close> is the value the clock had at the stop.
\<close>

theorem playback_clock:
  "(playback_active db \<longrightarrow>
      time_pb db now = relative_stop_time db + (now * 1000 - start_time db) * playback_speed db)
   \<and> (\<not> playback_active db \<longrightarrow> time_pb db now = relative_stop_time db)
   \<and> (playback_active db \<longrightarrow> start_pb db now = db)
   \<and> (list_all (\<lambda>op. \<not> is_start op) ops \<longrightarrow>
        time_pb (foldl apply_pb (stop_pb db t0) ops) t1 = time_pb db t0)"
proof (intro conjI impI)
  assume ops: "list_all (\<lambda>op. \<not> is_start op) ops"
  have "\<not> playback_active (stop_pb db t0)" by (simp add: stop_pb_def)
  from frozen_ops[OF this ops]
  have f: "\<not> playback_active (foldl apply_pb (stop_pb db t0) ops)"
    "relative_stop_time (foldl apply_pb (stop_pb db t0) ops) = relative_stop_time (stop_pb db t0)"
    by simp_all
  have g: "relative_stop_time (stop_pb db t0) = time_pb db t0" by (simp add: stop_pb_def)
  show "time_pb (foldl apply_pb (stop_pb db t0) ops) t1 = time_pb db t0"
    using time_pb_paused[OF f(1), of t1] f(2) g by simp
qed (simp_all add: time_pb_def start_pb_def is_streaming_def)

theorem playback_clock_witness:
  "playback_active example_pb \<and> time_pb example_pb 3 = 5100 \<and> start_pb example_pb 9 = example_pb
   \<and> \<not> playback_active (stop_pb example_pb 3) \<and> time_pb (stop_pb example_pb 3) 8 = 5100
   \<and> time_pb (foldl apply_pb (stop_pb example_pb 3) [Time 4, SetSpeed 2, Stop 5, Time 6]) 7 = 5100"
proof -
  have a: "playback_active example_pb" by (simp add: example_pb_def)
  have b: "\<not> playback_active (stop_pb example_pb 3)" by (simp add: stop_pb_def)
  have c: "list_all (\<lambda>op. \<not> is_start op) [Time 4, SetSpeed 2, Stop 5, Time 6]" by simp
  have d: "relative_stop_time example_pb + (3 * 1000 - start_time example_pb) * playback_speed example_pb = 5100"
    by (simp add: example_pb_def)
  have e: "relative_stop_time (stop_pb example_pb 3) = 5100"
    by (simp add: stop_pb_def time_pb_def is_streaming_def example_pb_def)
  from playback_clock[of example_pb 3 "[Time 4, SetSpeed 2, Stop 5, Time 6]" 3 7]
       playback_clock[of example_pb 9 "[]" 3 7]
       playback_clock[of "stop_pb example_pb 3" 8 "[]" 3 7] a b c d e
  show ?thesis by simp
qed

section \<open>Node.remove_socket\<close>

lemma throw_flags: "exit (throw msg b) \<and> close (throw msg b)"
  by (simp add: throw_def shutdown_def halt_def Let_def)

lemma throw_sockets: "sockets (throw msg n) = sockets n"
  by (simp add: throw_def shutdown_def halt_def Let_def)

lemma map_of_delete_None: "map_of (AList.delete k al) k = None"
  by (simp add: AList.delete_eq map_of_eq_None_iff image_iff)

text \<open>
  C8, as the code has it. Removing an id that is not in the registry leaves the node as it
  is. Removing a handler whose \<open>exit\<close> flag is not set leaves the registry unchanged and
  goes through \<open>throw\<close>, which records the error and shuts the node down: the node's
  \<open>exit\<close> and \<open>close\<close> flags are both set afterwards. A second call with the same id
  changes neither the registry nor the flags again.
\<close>

theorem remove_socket_effect:
  "(map_of (sockets n) socket_id = None \<longrightarrow> remove_socket socket_id n = n)
   \<and> (\<forall>handler. map_of (sockets n) socket_id = Some handler \<and> \<not> exit handler \<longrightarrow>
         sockets (remove_socket socket_id n) = sockets n
         \<and> exit (remove_socket socket_id n) \<and> close (remove_socket socket_id n)
         \<and> errors (remove_socket socket_id n)
             = errors n @ [''Attempted to remove a live SocketHandler''])
   \<and> sockets (remove_socket socket_id (remove_socket socket_id n))
        = sockets (remove_socket socket_id n)
   \<and> exit (remove_socket socket_id (remove_socket socket_id n))
        = exit (remove_socket socket_id n)
   \<and> close (remove_socket socket_id (remove_socket socket_id n))
        = close (remove_socket socket_id n)"
proof -
  have idem: "sockets (remove_socket socket_id (remove_socket socket_id n))
        = sockets (remove_socket socket_id n)
   \<and> exit (remove_socket socket_id (remove_socket socket_id n))
        = exit (remove_socket socket_id n)
   \<and> close (remove_socket socket_id (remove_socket socket_id n))
        = close (remove_socket socket_id n)"
  proof (cases "map_of (sockets n) socket_id")
    case None
    then show ?thesis by (simp add: remove_socket_def)
  next
    case (Some h)
    show ?thesis
    proof (cases "exit h")
      case True
      then have "remove_socket socket_id n = n\<lparr>sockets := AList.delete socket_id (sockets n)\<rparr>"
        using Some by (simp add: remove_socket_def)
      then show ?thesis by (simp add: remove_socket_def map_of_delete_None)
    next
      case False
      then have r: "remove_socket socket_id n = throw ''Attempted to remove a live SocketHandler'' n"
        using Some by (simp add: remove_socket_def)
      show ?thesis unfolding r
        using Some False
        by (simp add: remove_socket_def[of socket_id "throw _ n"] throw_sockets throw_flags)
    qed
  qed
  show ?thesis
    using idem by (auto simp: remove_socket_def throw_def shutdown_def halt_def Let_def)
qed

theorem remove_socket_effect_witness:
  "map_of (sockets example_node) ''s2'' = None \<and> remove_socket ''s2'' example_node = example_node
   \<and> map_of (sockets example_node) ''s1'' = Some live_handler \<and> \<not> exit live_handler
   \<and> sockets (remove_socket ''s1'' example_node) = sockets example_node
   \<and> exit (remove_socket ''s1'' example_node) \<and> close (remove_socket ''s1'' example_node)"
proof -
  have a: "map_of (sockets example_node) ''s2'' = None"
    by (simp add: example_node_def)
  have b: "map_of (sockets example_node) ''s1'' = Some live_handler \<and> \<not> exit live_handler"
    by (simp add: example_node_def live_handler_def)
  from remove_socket_effect[of example_node "''s2''"] a
  have c: "remove_socket ''s2'' example_node = example_node" by simp
  from remove_socket_effect[of example_node "''s1''"] b
  have d: "sockets (remove_socket ''s1'' example_node) = sockets example_node
   \<and> exit (remove_socket ''s1'' example_node) \<and> close (remove_socket ''s1'' example_node)"
    by blast
  show ?thesis using a b c d by simp
qed

text \<open>
  The claim says the node's own \<open>exit\<close> and \<open>close\<close> flags stay unchanged when the handler is
  live. On a node with both flags clear and one live handler, both flags are set after the
  call.
\<close>

theorem remove_socket_live_counterexample:
  "map_of (sockets example_node) ''s1'' = Some live_handler \<and> \<not> exit live_handler
   \<and> \<not> exit example_node \<and> \<not> close example_node
   \<and> exit (remove_socket ''s1'' example_node) \<and> close (remove_socket ''s1'' example_node)"
  by (simp add: example_node_def live_handler_def remove_socket_def throw_def shutdown_def
        halt_def Let_def)

section \<open>DatabaseController.remove\<close>

text \<open>
  The playback branches: a port shared by several sessions has its count decremented, the
  last session of a port shuts the backend down and releases the port's file; both delete
  the session binding.
\<close>

lemma remove_playback_shared:
  assumes "map_of (sessions c) ID = Some db" "\<not> live db"
    "map_of (playback_ports c) (port db) = Some info" "file_set info" "1 < count info"
  shows "\<exists>c'. remove ok ID c = Inr c' \<and> get c' ID = None
           \<and> map_of (playback_ports c') (port db) = Some (info\<lparr>count := count info - 1\<rparr>)
           \<and> shut_down c' = shut_down c"
  using assms by (simp add: remove_def get_def map_of_delete_None update_conv')

lemma remove_playback_last:
  assumes "map_of (sessions c) ID = Some db" "\<not> live db"
    "map_of (playback_ports c) (port db) = Some info" "file_set info" "count info \<le> 1"
  shows "\<exists>c'. remove True ID c = Inr c' \<and> get c' ID = None
           \<and> map_of (playback_ports c') (port db) = Some \<lparr>port_file = None, count = 0\<rparr>
           \<and> shut_down c' = shut_down c @ [port db]"
  using assms by (simp add: remove_def get_def map_of_delete_None update_conv')

text \<open>
  C9 at a live store. \<open>remove\<close> returns at \<open>if db.live: return\<close>, before
  \<open>del self.sessions[ID]\<close>: the session is still bound and \<open>get\<close> still returns the store.
\<close>

theorem remove_live_keeps_binding:
  "get example_controller ''session-1'' = Some live_db \<and> live live_db
   \<and> remove True ''session-1'' example_controller = Inr example_controller
   \<and> remove False ''session-1'' example_controller = Inr example_controller"
  by (simp add: get_def remove_def example_controller_def live_db_def)

section \<open>Database: entry ids and the bookmark lock\<close>

text \<open>
  On a bookmark that has not recorded a write, \<open>validate_redis_time\<close> returns the id
  unchanged and records nothing, so a whole batch leaves the bookmark as it was and every id
  is the bare millisecond string.
\<close>

lemma validate_redis_time_unwritten:
  "write_bm bookmark = None \<Longrightarrow> validate_redis_time redis_id bookmark = Inr (redis_id, bookmark)"
  by (simp add: validate_redis_time_def)

lemma write_points_unwritten:
  "write_bm bookmark = None \<Longrightarrow>
   write_points stream dat ts i bookmark cmds =
     Inr (cmds @ map (\<lambda>(j, t). \<lparr>xadd_key = ''stream:'' @ stream, xadd_row = row_at dat j,
                                 xadd_id = time_to_redis t\<rparr>) (zip [i..<i + length ts] ts),
          bookmark)"
proof (induction ts arbitrary: i cmds)
  case Nil
  then show ?case by simp
next
  case (Cons t ts)
  have "[i..<i + length (t # ts)] = i # [i + 1..<(i + 1) + length ts]"
    by (simp add: upt_rec)
  then show ?case
    using Cons.IH[OF Cons.prems, of "i + 1"] Cons.prems
    by (simp add: validate_redis_time_unwritten)
qed

lemma bookmarks_get_unwritten:
  assumes "list_all (\<lambda>(k, b). write_bm b = None) (bookmarks db)"
  shows "write_bm (fst (bookmarks_get db stream)) = None"
proof (cases "map_of (bookmarks db) stream")
  case None
  then show ?thesis by (simp add: bookmarks_get_def new_bookmark_def)
next
  case (Some b)
  then have "(stream, b) \<in> set (bookmarks db)" by (rule map_of_SomeD)
  with assms have "write_bm b = None" by (auto simp: list_all_iff)
  with Some show ?thesis by (simp add: bookmarks_get_def)
qed

text \<open>
  C2 at two rows of one batch whose times, 1000.2 and 1000.7, fall in the same millisecond,
  on a store that has not written before: both commands carry the id \<open>1000\<close>, no sequence
  number is attached, and the bookmark still records no write.
\<close>

theorem write_data_same_millisecond:
  "write_data ''s'' [(''time'', Many [Num 1000.2, Num 1000.7]), (''x'', Many [Num 1, Num 2])] fresh_db
     = Inr ([\<lparr>xadd_key = ''stream:s'', xadd_row = [(''time'', Num 1000.2), (''x'', Num 1)],
              xadd_id = ''1000''\<rparr>,
             \<lparr>xadd_key = ''stream:s'', xadd_row = [(''time'', Num 1000.7), (''x'', Num 2)],
              xadd_id = ''1000''\<rparr>],
            \<lparr>bookmarks = [(''s'', new_bookmark)], start_time_db = Some 5000\<rparr>)"
  by code_simp

text \<open>
  The lock test of \<open>read_data\<close>: \<open>if bookmark.lock(block=False): return\<close>. A call that finds
  the lock free takes it and returns \<open>None\<close> with the lock still held; a call that finds the
  lock held goes on, reads, updates the bookmark and releases the lock.
\<close>

lemma read_data_free_lock:
  assumes "map_of (bookmarks db) st = Some b" "\<not> locked b"
  shows "read_data to_float backend now1 now2 (Some st) cnt max_time numerical decode db
         = (Inr None, set_bookmark st (b\<lparr>locked := True\<rparr>) db)"
  using assms by (simp add: read_data_def bookmarks_get_def lock_def)

lemma read_data_new_bookmark:
  assumes "map_of (bookmarks db) st = None"
  shows "read_data to_float backend now1 now2 (Some st) cnt max_time numerical decode db
         = (Inr None, set_bookmark st (new_bookmark\<lparr>locked := True\<rparr>) db)"
  using assms
  by (simp add: read_data_def bookmarks_get_def lock_def new_bookmark_def set_bookmark_def)

lemma read_data_held_lock:
  assumes "map_of (bookmarks db) st = Some b" "locked b" "fetch backend now1 st cnt max_time b = Inr response"
    "response \<noteq> []" "convert_rows to_float (numerical \<and> decode) response [] = Inr output"
  shows "\<exists>db'. read_data to_float backend now1 now2 (Some st) cnt max_time numerical decode db
         = (Inr (Some output), db')
         \<and> map_option last_id (map_of (bookmarks db') st) = Some (Some (fst (last response)))
         \<and> map_option locked (map_of (bookmarks db') st) = Some False"
proof -
  have l: "lock b = (False, b)" using assms(2) by (simp add: lock_def)
  have s: "set_bookmark st b db = db"
    using assms(1) by (simp add: set_bookmark_def AList.update_triv)
  show ?thesis
    using assms
    by (simp add: read_data_def bookmarks_get_def l s Let_def release_def set_bookmark_def update_conv')
qed

text \<open>
  C1 on a store whose backend holds one entry. The first call finds no bookmark, creates it,
  takes its lock and returns \<open>None\<close>: nothing is read and the lock stays held. The second
  call finds the lock held and proceeds all the same: it returns the entry, moves the
  bookmark to \<open>1000-0\<close> and releases the lock.
\<close>

theorem read_data_lock_inverted:
  "read_data float_of one_entry_backend 6 6 (Some ''s'') None None True True fresh_db
     = (Inr None, locked_db)
   \<and> read_data float_of one_entry_backend 6 6 (Some ''s'') None None True True locked_db
     = (Inr (Some [(''time'', [Float 1000]), (''x'', [Float 1])]),
        \<lparr>bookmarks = [(''s'', new_bookmark\<lparr>first_id := Some ''1000-0'',
             last_id := Some ''1000-0'', first_time := Some 5000, last_time := Some 6000\<rparr>)],
         start_time_db = Some 5000\<rparr>)"
  by code_simp

section \<open>The request codec: reading well-formed input\<close>

lemma readline_line:
  "CHR 0x0A \<notin> set l \<Longrightarrow> readline (l @ CHR 0x0A # rest) = (l @ [CHR 0x0A], rest)"
  by (induction l) auto

lemma readline_crlf:
  "CHR 0x0A \<notin> set l \<Longrightarrow> readline (l @ CRLF @ rest) = (l @ CRLF, rest)"
  using readline_line[of "l @ [CHR 0x0D]" rest] by (simp add: CRLF_def)

lemma ends_crlf_append: "ends_crlf (l @ CRLF)"
  by (simp add: ends_crlf_def CRLF_def)

lemma read_line_crlf:
  assumes "CHR 0x0A \<notin> set l"
  shows "read_line max_len (h\<lparr>pull_buffer := l @ CRLF @ rest\<rparr>)
         = Some (Some (strip (l @ CRLF)), h\<lparr>pull_buffer := rest\<rparr>)"
proof -
  have ne: "l @ CRLF \<noteq> []" by (simp add: CRLF_def)
  have loop: "read_line_loop max_len ex (l @ CRLF) rest = Some (Line (l @ CRLF) rest)" for ex
    by (subst read_line_loop.simps) (simp add: ends_crlf_append)
  show ?thesis
    using ne by (simp add: read_line_def readline_crlf[OF assms] loop)
qed

lemma is_space_simps:
  "is_space (CHR 0x0D)" "is_space (CHR 0x0A)" "is_space (CHR '' '')" "\<not> is_space (CHR '':'')"
  by (simp_all add: is_space_def)

lemma strip_clean:
  assumes "s \<noteq> []" "\<not> is_space (hd s)" "\<not> is_space (last s)"
  shows "strip s = s"
proof -
  have a: "dropWhile is_space s = s"
    using assms(2) by (simp add: dropWhile_eq_self_iff)
  have "hd (rev s) = last s" using assms(1) by (simp add: hd_rev)
  then have b: "dropWhile is_space (rev s) = rev s"
    using assms(3) by (simp add: dropWhile_eq_self_iff)
  show ?thesis by (simp add: strip_def a b)
qed

lemma strip_Nil: "strip [] = []"
  by (simp add: strip_def)

lemma dropWhile_same_length:
  assumes "length (dropWhile P xs) = length xs"
  shows "dropWhile P xs = xs"
proof -
  have "length (takeWhile P xs) + length (dropWhile P xs) = length xs"
    by (metis length_append takeWhile_dropWhile_id)
  with assms have "takeWhile P xs = []" by simp
  then show ?thesis by (metis append_Nil takeWhile_dropWhile_id)
qed

lemma strip_idD:
  assumes "strip v = v" "v \<noteq> []"
  shows "\<not> is_space (hd v) \<and> \<not> is_space (last v)"
proof -
  let ?d = "dropWhile is_space v"
  have l1: "length (dropWhile is_space (rev ?d)) \<le> length ?d"
    using length_dropWhile_le[of is_space "rev ?d"] by simp
  have l2: "length ?d \<le> length v" by (rule length_dropWhile_le)
  have "length (strip v) = length (dropWhile is_space (rev ?d))" by (simp add: strip_def)
  with assms(1) have l3: "length (dropWhile is_space (rev ?d)) = length v" by simp
  from l1 l2 l3 have "length ?d = length v" by simp
  then have d: "?d = v" by (rule dropWhile_same_length)
  then have h: "\<not> is_space (hd v)" using assms(2) by (simp add: dropWhile_eq_self_iff)
  from l3 d have "length (dropWhile is_space (rev v)) = length (rev v)" by simp
  then have "dropWhile is_space (rev v) = rev v" by (rule dropWhile_same_length)
  then have "\<not> is_space (hd (rev v))" using assms(2) by (simp add: dropWhile_eq_self_iff)
  then have "\<not> is_space (last v)" using assms(2) by (simp add: hd_rev)
  with h show ?thesis by simp
qed

lemma strip_trailing:
  assumes "list_all is_space t"
  shows "strip (s @ t) = strip s"
proof (cases "list_all is_space s")
  case True
  have "\<forall>x\<in>set (s @ t). is_space x" "\<forall>x\<in>set s. is_space x"
    using True assms by (auto simp: list_all_iff)
  then have "dropWhile is_space (s @ t) = []" "dropWhile is_space s = []"
    by (simp_all only: dropWhile_eq_Nil_conv)
  then show ?thesis by (simp only: strip_def)
next
  case False
  then obtain x where x: "x \<in> set s" "\<not> is_space x" by (auto simp: list_all_iff)
  then have a: "dropWhile is_space (s @ t) = dropWhile is_space s @ t"
    by (simp add: dropWhile_append1)
  have b: "dropWhile is_space (rev t @ ys) = dropWhile is_space ys" for ys
    using assms by (intro dropWhile_append2) (auto simp: list_all_iff)
  show ?thesis by (simp add: strip_def a b)
qed

lemma strip_crlf: "strip CRLF = []"
  by (simp add: strip_def CRLF_def is_space_simps)

lemma split_ws_token:
  "\<not> list_ex is_space a \<Longrightarrow> split_ws w (a @ rest) = split_ws (w @ a) rest"
  by (induction a arbitrary: w) auto

lemma py_words_three:
  assumes "a \<noteq> []" "\<not> list_ex is_space a" "b \<noteq> []" "\<not> list_ex is_space b"
    "c \<noteq> []" "\<not> list_ex is_space c"
  shows "py_words (a @ '' '' @ b @ '' '' @ c) = [a, b, c]"
proof -
  have 1: "split_ws [] (a @ CHR '' '' # b @ CHR '' '' # c) = a # split_ws [] (b @ CHR '' '' # c)"
    using assms(1) by (simp add: split_ws_token[OF assms(2)] is_space_simps)
  have 2: "split_ws [] (b @ CHR '' '' # c) = b # split_ws [] c"
    using assms(3) by (simp add: split_ws_token[OF assms(4)] is_space_simps)
  have 3: "split_ws [] c = [c]"
    using split_ws_token[OF assms(6), of "[]" "[]"] assms(5) by simp
  show ?thesis by (simp add: py_words_def 1 2 3)
qed

lemma split1_colon:
  assumes "CHR '':'' \<notin> set k"
  shows "split1 CHR '':'' (k @ '':'' @ rest) = Some (k, rest)"
proof -
  have k: "\<forall>x\<in>set k. x \<noteq> CHR '':''" using assms by auto
  have "dropWhile (\<lambda>c. c \<noteq> CHR '':'') (k @ CHR '':'' # rest) = CHR '':'' # rest"
    using k by (simp add: dropWhile_append2)
  moreover have "takeWhile (\<lambda>c. c \<noteq> CHR '':'') (k @ CHR '':'' # rest) = k"
    using k by (simp add: takeWhile_append2)
  ultimately show ?thesis by (simp add: split1_def)
qed

lemma update_fresh: "k \<notin> fst ` set al \<Longrightarrow> AList.update k v al = al @ [(k, v)]"
  by (induction al) (auto simp: AList.update.simps)

lemma strip_header_line:
  assumes "dropWhile is_space k = k" "strip v = v"
  shows "strip (k @ '': '' @ v @ CRLF) = k @ '':'' @ (if v = [] then [] else '' '' @ v)"
proof -
  from assms(1) have "k = [] \<or> \<not> is_space (hd k)"
    by (simp only: dropWhile_eq_self_iff)
  then have hdk: "\<not> is_space (hd (k @ '':'' @ x))" for x
    by (cases k) (auto simp: is_space_simps)
  show ?thesis
  proof (cases "v = []")
    case True
    have "strip ((k @ '':'') @ ('' '' @ CRLF)) = strip (k @ '':'')"
      by (rule strip_trailing) (simp add: CRLF_def is_space_simps)
    also have "\<dots> = k @ '':''"
      using hdk[of "[]"] by (intro strip_clean) (simp_all add: is_space_simps)
    finally show ?thesis using True by simp
  next
    case False
    from strip_idD[OF assms(2) False] have lv: "\<not> is_space (last v)" by simp
    have "strip ((k @ '': '' @ v) @ CRLF) = strip (k @ '': '' @ v)"
      by (rule strip_trailing) (simp add: CRLF_def is_space_simps)
    also have "\<dots> = k @ '': '' @ v"
      using hdk[of "'' '' @ v"] lv False by (intro strip_clean) simp_all
    finally show ?thesis using False by simp
  qed
qed

lemma strip_value:
  assumes "strip v = v"
  shows "strip (if v = [] then [] else '' '' @ v) = v"
proof (cases "v = []")
  case True
  then show ?thesis by (simp add: strip_Nil)
next
  case False
  have "strip (CHR '' '' # v) = strip v"
    by (simp add: strip_def is_space_simps)
  then show ?thesis using False assms by simp
qed

lemma read_header_line:
  assumes "wf_header (k, v)"
  shows "read_line max_len (h\<lparr>pull_buffer := (k @ '': '' @ v @ CRLF) @ rest\<rparr>)
         = Some (Some (k @ '':'' @ (if v = [] then [] else '' '' @ v)), h\<lparr>pull_buffer := rest\<rparr>)"
proof -
  have nl: "CHR 0x0A \<notin> set (k @ '': '' @ v)"
    using assms by (simp add: wf_header_def)
  have "read_line max_len (h\<lparr>pull_buffer := (k @ '': '' @ v) @ CRLF @ rest\<rparr>)
        = Some (Some (strip ((k @ '': '' @ v) @ CRLF)), h\<lparr>pull_buffer := rest\<rparr>)"
    by (rule read_line_crlf[OF nl])
  moreover have "strip ((k @ '': '' @ v) @ CRLF) = k @ '':'' @ (if v = [] then [] else '' '' @ v)"
    using strip_header_line[of k v] assms by (simp add: wf_header_def)
  ultimately show ?thesis by simp
qed

lemma read_blank_line:
  "read_line max_len (h\<lparr>pull_buffer := CRLF @ rest\<rparr>) = Some (Some [], h\<lparr>pull_buffer := rest\<rparr>)"
  using read_line_crlf[where l="[]" and max_len=max_len and h=h and rest=rest]
  by (simp add: strip_crlf)

lemma parse_header_loop_ok:
  assumes "list_all wf_header hs" "distinct (map fst (lower_keys hs))"
    "fst ` set (lower_keys hs) \<inter> fst ` set acc = {}"
    "length hs < n" "header (request h) = acc"
  shows "parse_header_loop n (h\<lparr>pull_buffer := concat (map (\<lambda>(k, v). k @ '': '' @ v @ CRLF) hs) @ CRLF @ rest\<rparr>)
         = Some (Done, h\<lparr>pull_buffer := rest, request := (request h)\<lparr>header := acc @ lower_keys hs\<rparr>\<rparr>)"
  using assms
proof (induction hs arbitrary: n acc h)
  case Nil
  then obtain m where n: "n = Suc m" by (cases n) auto
  from Nil.prems(5) have "(request h)\<lparr>header := acc\<rparr> = request h" by simp
  then show ?case
    by (simp add: n read_blank_line lower_keys_def)
next
  case (Cons kv hs)
  obtain k v where kv: "kv = (k, v)" by (cases kv)
  from Cons.prems(4) obtain m where n: "n = Suc m" "length hs < m" by (cases n) auto
  have wf: "wf_header (k, v)" using Cons.prems(1) kv by simp
  then have col: "CHR '':'' \<notin> set k" and sv: "strip v = v"
    by (simp_all add: wf_header_def)
  have lk: "lower_keys (kv # hs) = (lower k, PStr v) # lower_keys hs"
    by (simp add: lower_keys_def kv)
  have fresh: "lower k \<notin> fst ` set acc" using Cons.prems(3) unfolding lk by auto
  let ?h1 = "h\<lparr>pull_buffer := concat (map (\<lambda>(k, v). k @ '': '' @ v @ CRLF) hs) @ CRLF @ rest\<rparr>"
  let ?h2 = "?h1\<lparr>request := (request ?h1)\<lparr>header := AList.update (lower k) (PStr v) (header (request ?h1))\<rparr>\<rparr>"
  have rd: "read_line 1024 (h\<lparr>pull_buffer := concat (map (\<lambda>(k, v). k @ '': '' @ v @ CRLF) (kv # hs)) @ CRLF @ rest\<rparr>)
            = Some (Some (k @ '':'' @ (if v = [] then [] else '' '' @ v)), ?h1)"
    using read_header_line[OF wf, where max_len=1024 and h=h] by (simp add: kv)
  have sp: "split1 CHR '':'' (k @ '':'' @ (if v = [] then [] else '' '' @ v))
            = Some (k, if v = [] then [] else '' '' @ v)"
    by (rule split1_colon[OF col])
  have ne: "k @ '':'' @ (if v = [] then [] else '' '' @ v) \<noteq> []" by simp
  have step: "parse_header_loop n (h\<lparr>pull_buffer := concat (map (\<lambda>(k, v). k @ '': '' @ v @ CRLF) (kv # hs)) @ CRLF @ rest\<rparr>)
              = parse_header_loop m ?h2"
    unfolding n(1) parse_header_loop.simps rd
    using ne sp strip_value[OF sv] by (simp del: append.simps)
  have h2: "?h2 = (h\<lparr>request := (request h)\<lparr>header := acc @ [(lower k, PStr v)]\<rparr>\<rparr>)
                    \<lparr>pull_buffer := concat (map (\<lambda>(k, v). k @ '': '' @ v @ CRLF) hs) @ CRLF @ rest\<rparr>"
    using Cons.prems(5) by (simp add: update_fresh[OF fresh])
  have d: "distinct (map fst (lower_keys hs))" "list_all wf_header hs"
    using Cons.prems(1,2) unfolding lk by simp_all
  have disj: "fst ` set (lower_keys hs) \<inter> fst ` set (acc @ [(lower k, PStr v)]) = {}"
    using Cons.prems(2,3) unfolding lk by auto
  have "parse_header_loop m ?h2
        = Some (Done, (h\<lparr>request := (request h)\<lparr>header := acc @ [(lower k, PStr v)]\<rparr>\<rparr>)
                 \<lparr>pull_buffer := rest,
                   request := (request (h\<lparr>request := (request h)\<lparr>header := acc @ [(lower k, PStr v)]\<rparr>\<rparr>))
                                \<lparr>header := (acc @ [(lower k, PStr v)]) @ lower_keys hs\<rparr>\<rparr>)"
    unfolding h2
    by (rule Cons.IH[OF d(2) d(1) disj n(2)]) simp
  then show ?case unfolding step lk by simp
qed

lemma wf_tokenD:
  assumes "wf_token t"
  shows "t \<noteq> []" "\<not> list_ex is_space t" "\<not> is_space (hd t)" "\<not> is_space (last t)"
    "CHR 0x0A \<notin> set t"
proof -
  show ne: "t \<noteq> []" and nx: "\<not> list_ex is_space t" using assms by (simp_all add: wf_token_def)
  from nx have all: "\<forall>c\<in>set t. \<not> is_space c" by (simp add: list_ex_iff)
  with ne show "\<not> is_space (hd t)" "\<not> is_space (last t)" by simp_all
  from all show "CHR 0x0A \<notin> set t" using is_space_simps(2) by blast
qed

lemma read_start_line:
  assumes "wf_token a" "wf_token b" "wf_token c"
  shows "read_request_line (h\<lparr>pull_buffer := (a @ '' '' @ b @ '' '' @ c @ CRLF) @ rest\<rparr>)
         = Some (Some (a @ '' '' @ b @ '' '' @ c), h\<lparr>pull_buffer := rest\<rparr>)"
proof -
  let ?l = "a @ '' '' @ b @ '' '' @ c"
  have nl: "CHR 0x0A \<notin> set ?l"
    using wf_tokenD(5)[OF assms(1)] wf_tokenD(5)[OF assms(2)] wf_tokenD(5)[OF assms(3)] by simp
  have ne: "?l \<noteq> []" using wf_tokenD(1)[OF assms(1)] by simp
  have hd: "\<not> is_space (hd ?l)"
    using wf_tokenD(1,3)[OF assms(1)] by simp
  have la: "\<not> is_space (last ?l)"
    using wf_tokenD(1,4)[OF assms(3)] by simp
  have st: "strip (?l @ CRLF) = ?l"
    using strip_trailing[of CRLF ?l] strip_clean[OF ne hd la]
    by (simp add: CRLF_def is_space_simps)
  have rd: "read_line 256 (h\<lparr>pull_buffer := ?l @ CRLF @ rest\<rparr>)
            = Some (Some ?l, h\<lparr>pull_buffer := rest\<rparr>)"
    using read_line_crlf[OF nl, where max_len=256 and h=h and rest=rest] st by simp
  show ?thesis
    by (subst read_request_line.simps) (use rd ne in simp)
qed

lemma py_int_Nil: "py_int [] = None"
  by (simp add: py_int_def strip_Nil)

lemma lower_keys_text:
  assumes "map_of (lower_keys hs) k = Some v"
  shows "\<exists>t. v = PStr t"
proof -
  from assms have "(k, v) \<in> set (lower_keys hs)" by (rule map_of_SomeD)
  then show ?thesis by (auto simp: lower_keys_def)
qed

lemma read_counted:
  assumes "int_of v = Some (int (length c))" "v = PStr t"
  shows "truthy (Some v)"
  using assms by (auto simp: truthy_def int_of_def py_int_Nil)

lemma parse_content_absent:
  assumes "\<not> truthy (map_of (header (request h)) ''content-length'')"
  shows "parse_content h = (Done, h)"
  using assms by (simp add: parse_content_def)

lemma parse_content_present:
  assumes "map_of (header (request h)) ''content-length'' = Some v" "truthy (Some v)"
    "int_of v = Some (int (length c))" "c \<noteq> []" "pull_buffer h = c @ rest"
  shows "parse_content h = (Done, h\<lparr>pull_buffer := rest, request := (request h)\<lparr>content := Some c\<rparr>\<rparr>)"
proof -
  have pr: "pull_read (int (length c)) (c @ rest) = (c, rest)"
    by (simp add: pull_read_def)
  have rm: "read_more (int (length c)) ex c rest = (c, rest)" for ex
    by (subst read_more.simps) simp
  have "read_exact (int (length c)) h = (Inr (Some c), h\<lparr>pull_buffer := rest\<rparr>)"
    using assms(4,5) by (simp add: read_exact_def pr rm)
  then show ?thesis
    using assms(1,2,3) by (simp add: parse_content_def)
qed

lemma request_line_request:
  assumes "wf_token m" "take 5 m \<noteq> ''HTTP/''" "wf_token p" "CHR ''?'' \<notin> set p" "wf_token ver"
  shows "request_line (m @ '' '' @ p @ '' '' @ ver) h
         = (Done, h\<lparr>request := (request h)\<lparr>method_rq := Some m, version := ver, path := Some p\<rparr>\<rparr>)"
  using py_words_three[OF wf_tokenD(1,2)[OF assms(1)] wf_tokenD(1,2)[OF assms(3)]
          wf_tokenD(1,2)[OF assms(5)]] assms(2,4)
  by (simp add: request_line_def Let_def)

lemma request_line_response:
  assumes "wf_token ver" "take 5 ver = ''HTTP/''" "wf_token c" "wf_token g"
  shows "request_line (ver @ '' '' @ c @ '' '' @ g) h
         = (Done, h\<lparr>request := (request h)\<lparr>version := ver, code := Some (PStr c),
                                           message := Some g\<rparr>\<rparr>)"
  using py_words_three[OF wf_tokenD(1,2)[OF assms(1)] wf_tokenD(1,2)[OF assms(3)]
          wf_tokenD(1,2)[OF assms(4)]] assms(2)
  by (simp add: request_line_def Let_def)

text \<open>The steps after the start line, on a request whose headers are still empty.\<close>

lemma parse_rest_ok:
  assumes hs: "list_all wf_header hs" "distinct (map fst (lower_keys hs))" "length hs < 32"
      "valid_headers (lower_keys hs) = Inr True"
    and h: "header (request h) = []" "content (request h) = None"
    and c: "case cont of
              None \<Rightarrow> \<not> truthy (map_of (lower_keys hs) ''content-length'')
            | Some c \<Rightarrow> c \<noteq> [] \<and> (case map_of (lower_keys hs) ''content-length'' of
                                     None \<Rightarrow> False
                                   | Some v \<Rightarrow> int_of v = Some (int (length c)))"
    and b: "pull_buffer h = concat (map (\<lambda>(k, v). k @ '': '' @ v @ CRLF) hs) @ CRLF
                              @ (case cont of None \<Rightarrow> [] | Some c \<Rightarrow> c) @ rest"
  shows "Option.bind (parse_header h)
           (\<lambda>r2. case r2 of
              (Failed, h2) \<Rightarrow> Some (NoRequest, h2)
            | (Raised e, h2) \<Rightarrow> Some (Exception e, h2)
            | (Done, h2) \<Rightarrow>
                (case validate h2 of
                   (Failed, h3) \<Rightarrow> Some (NoRequest, h3)
                 | (Raised e, h3) \<Rightarrow> Some (Exception e, h3)
                 | (Done, h3) \<Rightarrow>
                     (case parse_content h3 of
                        (Failed, h4) \<Rightarrow> Some (NoRequest, h4)
                      | (Raised e, h4) \<Rightarrow> Some (Exception e, h4)
                      | (Done, h4) \<Rightarrow> Some (Parsed (request h4), h4\<lparr>request := new_request\<rparr>))))
         = Some (Parsed ((request h)\<lparr>header := lower_keys hs, content := cont\<rparr>),
                 h\<lparr>pull_buffer := rest, request := new_request\<rparr>)"
proof -
  let ?tail = "(case cont of None \<Rightarrow> [] | Some c \<Rightarrow> c) @ rest"
  let ?h2 = "h\<lparr>pull_buffer := ?tail, request := (request h)\<lparr>header := lower_keys hs\<rparr>\<rparr>"
  have "h = h\<lparr>pull_buffer := concat (map (\<lambda>(k, v). k @ '': '' @ v @ CRLF) hs) @ CRLF @ ?tail\<rparr>"
    using b by simp
  then have ph: "parse_header h = Some (Done, ?h2)"
    using parse_header_loop_ok[where hs=hs and acc="[]" and n=32 and h=h and rest="?tail"] hs h(1)
    by (simp add: parse_header_def)
  have va: "validate ?h2 = (Done, ?h2)"
    using hs(4) by (simp add: validate_def)
  have pc: "parse_content ?h2 = (Done, h\<lparr>pull_buffer := rest,
                                       request := (request h)\<lparr>header := lower_keys hs, content := cont\<rparr>\<rparr>)"
  proof (cases cont)
    case None
    then have "parse_content ?h2 = (Done, ?h2)"
      using c by (intro parse_content_absent) simp
    moreover have "(request h)\<lparr>header := lower_keys hs, content := None\<rparr>
                   = (request h)\<lparr>header := lower_keys hs\<rparr>"
      using h(2) by simp
    ultimately show ?thesis using None by simp
  next
    case (Some cc)
    with c obtain v where v: "cc \<noteq> []" "map_of (lower_keys hs) ''content-length'' = Some v"
        "int_of v = Some (int (length cc))"
      by (auto split: option.splits)
    from lower_keys_text[OF v(2)] obtain t where t: "v = PStr t" by blast
    have tr: "truthy (Some v)" by (rule read_counted[OF v(3) t])
    have "parse_content ?h2
          = (Done, ?h2\<lparr>pull_buffer := rest, request := (request ?h2)\<lparr>content := Some cc\<rparr>\<rparr>)"
      using v tr Some by (intro parse_content_present[where v=v]) simp_all
    then show ?thesis using Some by simp
  qed
  show ?thesis by (simp add: ph va pc)
qed

text \<open>The content as the parser returns it: an empty content is not read.\<close>

lemma format_headers_wire:
  "format_headers rq
   = concat (map (\<lambda>(k, v). k @ '': '' @ v @ CRLF) (wire (header rq)))
       @ (if header rq \<noteq> [] then CRLF else [])"
proof -
  have "map (\<lambda>(k, v). k @ '': '' @ v @ CRLF) (wire hs)
        = map (\<lambda>(k, v). k @ '': '' @ str_of v @ CRLF) hs" for hs
    by (induction hs) (auto simp: wire_def)
  then show ?thesis by (simp add: format_headers_def)
qed

lemma body_shape:
  assumes "wf_content rq"
  shows "format_headers rq @ (case content rq of Some c \<Rightarrow> c | None \<Rightarrow> CRLF) @ rest
         = concat (map (\<lambda>(k, v). k @ '': '' @ v @ CRLF) (wire (header rq))) @ CRLF
             @ (case (if content rq = Some [] then None else content rq) of
                  None \<Rightarrow> [] | Some c \<Rightarrow> c) @ (trailer rq @ rest)"
proof (cases "content rq")
  case None
  then show ?thesis by (simp add: format_headers_wire trailer_def)
next
  case (Some c)
  with assms have "header rq \<noteq> []"
    by (auto simp: wf_content_def lower_keys_def wire_def Let_def split: option.splits if_splits)
  with Some show ?thesis by (simp add: format_headers_wire trailer_def)
qed

lemma received_content:
  assumes "wf_content rq"
  shows "case (if content rq = Some [] then None else content rq) of
           None \<Rightarrow> \<not> truthy (map_of (lower_keys (wire (header rq))) ''content-length'')
         | Some c \<Rightarrow> c \<noteq> [] \<and> (case map_of (lower_keys (wire (header rq))) ''content-length'' of
                                  None \<Rightarrow> False
                                | Some v \<Rightarrow> int_of v = Some (int (length c)))"
  using assms by (auto simp: wf_content_def Let_def split: option.splits if_splits)

lemma parse_well_formed:
  assumes "well_formed rq"
  shows "\<exists>bytes. get_data rq = Some bytes
           \<and> parse_request (new_handler (bytes @ rest))
               = Some (Parsed (rq\<lparr>code := map_option (\<lambda>c. PStr (str_of c)) (code rq),
                                  queries := [],
                                  header := lower_keys (wire (header rq)),
                                  content := (if content rq = Some [] then None else content rq)\<rparr>),
                       new_handler (trailer rq @ rest))"
proof -
  from assms have wf: "wf_token (version rq)" "wf_start rq"
      "list_all wf_header (wire (header rq))" "distinct (map fst (lower_keys (wire (header rq))))"
      "length (wire (header rq)) < 32" "valid_headers (lower_keys (wire (header rq))) = Inr True"
      "wf_content rq"
    by (simp_all add: well_formed_def wire_def)
  define cont where "cont = (if content rq = Some [] then None else content rq)"
  note rc = received_content[OF wf(7), folded cont_def]
  note bs = body_shape[OF wf(7), folded cont_def]
  let ?tail = "format_headers rq @ (case content rq of Some c \<Rightarrow> c | None \<Rightarrow> CRLF) @ rest"
  show ?thesis
  proof (cases "method_rq rq")
    case (Some m)
    with wf(2) obtain p where s: "wf_token m" "take 5 m \<noteq> ''HTTP/''" "code rq = None"
        "message rq = None" "path rq = Some p" "wf_token p" "CHR ''?'' \<notin> set p"
      by (auto simp: wf_start_def split: option.splits)
    have tm: "truthy_str (Some m)" using wf_tokenD(1)[OF s(1)] by (simp add: truthy_str_def)
    have gd: "get_data rq = Some ((m @ '' '' @ p @ '' '' @ version rq @ CRLF)
                @ format_headers rq @ (case content rq of Some c \<Rightarrow> c | None \<Rightarrow> CRLF))"
      using Some s(3,5) tm
      by (simp add: get_data_def verify_def format_request_line_def fmt_def truthy_def)
    let ?h1 = "(new_handler ?tail)\<lparr>request := new_request\<lparr>method_rq := Some m,
                  version := version rq, path := Some p\<rparr>\<rparr>"
    have rl: "parse_request_line (new_handler ((m @ '' '' @ p @ '' '' @ version rq @ CRLF) @ ?tail))
              = Some (Done, ?h1)"
      using read_start_line[OF s(1) s(6) wf(1), where rest="?tail" and h="new_handler []"]
        request_line_request[OF s(1,2,6,7) wf(1)]
      by (simp add: parse_request_line_def new_handler_def)
    have pr: "Option.bind (parse_header ?h1)
           (\<lambda>r2. case r2 of
              (Failed, h2) \<Rightarrow> Some (NoRequest, h2)
            | (Raised e, h2) \<Rightarrow> Some (Exception e, h2)
            | (Done, h2) \<Rightarrow>
                (case validate h2 of
                   (Failed, h3) \<Rightarrow> Some (NoRequest, h3)
                 | (Raised e, h3) \<Rightarrow> Some (Exception e, h3)
                 | (Done, h3) \<Rightarrow>
                     (case parse_content h3 of
                        (Failed, h4) \<Rightarrow> Some (NoRequest, h4)
                      | (Raised e, h4) \<Rightarrow> Some (Exception e, h4)
                      | (Done, h4) \<Rightarrow> Some (Parsed (request h4), h4\<lparr>request := new_request\<rparr>))))
         = Some (Parsed ((request ?h1)\<lparr>header := lower_keys (wire (header rq)), content := cont\<rparr>),
                 ?h1\<lparr>pull_buffer := trailer rq @ rest, request := new_request\<rparr>)"
      by (rule parse_rest_ok[OF wf(3,4,5,6) _ _ rc])
         (simp_all add: new_handler_def new_request_def bs)
    have eq: "(request ?h1)\<lparr>header := lower_keys (wire (header rq)), content := cont\<rparr>
              = rq\<lparr>code := map_option (\<lambda>c. PStr (str_of c)) (code rq), queries := [],
                    header := lower_keys (wire (header rq)), content := cont\<rparr>"
      using Some s(3,4,5) by (simp add: new_request_def)
    have "parse_request (new_handler ((m @ '' '' @ p @ '' '' @ version rq @ CRLF) @ ?tail))
          = Some (Parsed (rq\<lparr>code := map_option (\<lambda>c. PStr (str_of c)) (code rq), queries := [],
                    header := lower_keys (wire (header rq)), content := cont\<rparr>),
                  new_handler (trailer rq @ rest))"
      unfolding parse_request_def rl
      using pr eq by (simp add: new_handler_def)
    with gd show ?thesis unfolding cont_def by simp
  next
    case None
    with wf(2) obtain c g where s: "take 5 (version rq) = ''HTTP/''" "path rq = None"
        "code rq = Some c" "wf_token (str_of c)" "message rq = Some g" "wf_token g"
        "truthy (Some c)"
      by (auto simp: wf_start_def split: option.splits)
    have gd: "get_data rq = Some ((version rq @ '' '' @ str_of c @ '' '' @ g @ CRLF)
                @ format_headers rq @ (case content rq of Some c \<Rightarrow> c | None \<Rightarrow> CRLF))"
      using None s(3,5,7)
      by (simp add: get_data_def verify_def format_request_line_def fmt_def truthy_str_def)
    let ?h1 = "(new_handler ?tail)\<lparr>request := new_request\<lparr>version := version rq,
                  code := Some (PStr (str_of c)), message := Some g\<rparr>\<rparr>"
    have rl: "parse_request_line (new_handler ((version rq @ '' '' @ str_of c @ '' '' @ g @ CRLF) @ ?tail))
              = Some (Done, ?h1)"
      using read_start_line[OF wf(1) s(4) s(6), where rest="?tail" and h="new_handler []"]
        request_line_response[OF wf(1) s(1) s(4) s(6)]
      by (simp add: parse_request_line_def new_handler_def)
    have pr: "Option.bind (parse_header ?h1)
           (\<lambda>r2. case r2 of
              (Failed, h2) \<Rightarrow> Some (NoRequest, h2)
            | (Raised e, h2) \<Rightarrow> Some (Exception e, h2)
            | (Done, h2) \<Rightarrow>
                (case validate h2 of
                   (Failed, h3) \<Rightarrow> Some (NoRequest, h3)
                 | (Raised e, h3) \<Rightarrow> Some (Exception e, h3)
                 | (Done, h3) \<Rightarrow>
                     (case parse_content h3 of
                        (Failed, h4) \<Rightarrow> Some (NoRequest, h4)
                      | (Raised e, h4) \<Rightarrow> Some (Exception e, h4)
                      | (Done, h4) \<Rightarrow> Some (Parsed (request h4), h4\<lparr>request := new_request\<rparr>))))
         = Some (Parsed ((request ?h1)\<lparr>header := lower_keys (wire (header rq)), content := cont\<rparr>),
                 ?h1\<lparr>pull_buffer := trailer rq @ rest, request := new_request\<rparr>)"
      by (rule parse_rest_ok[OF wf(3,4,5,6) _ _ rc])
         (simp_all add: new_handler_def new_request_def bs)
    have eq: "(request ?h1)\<lparr>header := lower_keys (wire (header rq)), content := cont\<rparr>
              = rq\<lparr>code := map_option (\<lambda>c. PStr (str_of c)) (code rq), queries := [],
                    header := lower_keys (wire (header rq)), content := cont\<rparr>"
      using None s(2,3,5) by (simp add: new_request_def)
    have "parse_request (new_handler ((version rq @ '' '' @ str_of c @ '' '' @ g @ CRLF) @ ?tail))
          = Some (Parsed (rq\<lparr>code := map_option (\<lambda>c. PStr (str_of c)) (code rq), queries := [],
                    header := lower_keys (wire (header rq)), content := cont\<rparr>),
                  new_handler (trailer rq @ rest))"
      unfolding parse_request_def rl
      using pr eq by (simp add: new_handler_def)
    with gd show ?thesis unfolding cont_def by simp
  qed
qed

lemma run_once_parsed:
  assumes "parse_request (new_handler input) = Some (Parsed rq, h)"
  shows "run_once (new_handler input) = Some (Some rq, h)"
  using assms by (simp add: run_once_def new_handler_def)

lemma wf_token_GET: "wf_token ''GET''" "wf_token ''HTTP/1.1''" "wf_token ''/''"
  by code_simp+

lemma lower_a: "lower ''a'' = ''a''"
  by code_simp

lemma not_space_x: "\<not> is_space (CHR ''x'')" "\<not> is_space (CHR ''p'')" "\<not> is_space (CHR ''/'')"
  by code_simp+

lemma well_formed_long_header: "well_formed long_header_request"
proof -
  have v: "strip (replicate 1997 (CHR ''x'')) = replicate 1997 (CHR ''x'')"
    by (rule strip_clean) (simp_all add: not_space_x)
  have k: "dropWhile is_space ''a'' = ''a''" by code_simp
  have h: "wf_header (''a'', replicate 1997 (CHR ''x''))"
    using v k by (simp add: wf_header_def)
  have w: "wire [(''a'', PStr (replicate 1997 (CHR ''x'')))] = [(''a'', replicate 1997 (CHR ''x''))]"
    by (simp add: wire_def str_of_def)
  have lk: "lower_keys [(''a'', replicate 1997 (CHR ''x''))]
            = [(''a'', PStr (replicate 1997 (CHR ''x'')))]"
    by (simp add: lower_keys_def lower_a)
  have vh: "valid_headers [(''a'', PStr (replicate 1997 (CHR ''x'')))] = Inr True"
    by (simp add: valid_headers_def host_keywords_def truthy_def)
  show ?thesis
    using h vh wf_token_GET
    by (simp add: well_formed_def long_header_request_def w lk wf_start_def wf_content_def
          truthy_def)
qed

lemma well_formed_long_start: "well_formed long_start_request"
proof -
  have p: "wf_token (CHR ''/'' # replicate 300 (CHR ''p''))"
    by (simp add: wf_token_def list_ex_iff not_space_x)
  have vh: "valid_headers [] = Inr True"
    by (simp add: valid_headers_def host_keywords_def truthy_def)
  show ?thesis
    using p vh wf_token_GET
    by (simp add: well_formed_def long_start_request_def lower_keys_def wire_def wf_start_def
          wf_content_def truthy_def)
qed

lemma parse_header_loop_exhausted:
  assumes "list_all wf_header hs" "length hs = n"
  shows "\<exists>rq'. parse_header_loop n
            (h\<lparr>pull_buffer := concat (map (\<lambda>(k, v). k @ '': '' @ v @ CRLF) hs) @ rest\<rparr>)
          = Some (Failed, throw ''Too many headers'' (h\<lparr>pull_buffer := rest, request := rq'\<rparr>))"
  using assms
proof (induction hs arbitrary: h n)
  case Nil
  have "h\<lparr>pull_buffer := rest\<rparr> = h\<lparr>pull_buffer := rest, request := request h\<rparr>" by simp
  then show ?case using Nil.prems(2)
    by (metis append_Nil concat.simps(1) list.map(1) list.size(3) parse_header_loop.simps(1))
next
  case (Cons kv hs)
  obtain k v where kv: "kv = (k, v)" by (cases kv)
  from Cons.prems(2) obtain m where n: "n = Suc m" "length hs = m" by (cases n) auto
  have wf: "wf_header (k, v)" using Cons.prems(1) kv by simp
  then have col: "CHR '':'' \<notin> set k" and sv: "strip v = v"
    by (simp_all add: wf_header_def)
  let ?h1 = "h\<lparr>pull_buffer := concat (map (\<lambda>(k, v). k @ '': '' @ v @ CRLF) hs) @ rest\<rparr>"
  let ?rq = "(request h)\<lparr>header := AList.update (lower k) (PStr v) (header (request h))\<rparr>"
  have rd: "read_line 1024 (h\<lparr>pull_buffer := concat (map (\<lambda>(k, v). k @ '': '' @ v @ CRLF) (kv # hs)) @ rest\<rparr>)
            = Some (Some (k @ '':'' @ (if v = [] then [] else '' '' @ v)), ?h1)"
    using read_header_line[OF wf, where max_len=1024 and h=h] by (simp add: kv)
  have sp: "split1 CHR '':'' (k @ '':'' @ (if v = [] then [] else '' '' @ v))
            = Some (k, if v = [] then [] else '' '' @ v)"
    by (rule split1_colon[OF col])
  have ne: "k @ '':'' @ (if v = [] then [] else '' '' @ v) \<noteq> []" by simp
  have step: "parse_header_loop n
                (h\<lparr>pull_buffer := concat (map (\<lambda>(k, v). k @ '': '' @ v @ CRLF) (kv # hs)) @ rest\<rparr>)
              = parse_header_loop m (?h1\<lparr>request := ?rq\<rparr>)"
    unfolding n(1) parse_header_loop.simps rd
    using ne sp strip_value[OF sv] by (simp del: append.simps)
  have sw: "?h1\<lparr>request := ?rq\<rparr>
            = (h\<lparr>request := ?rq\<rparr>)\<lparr>pull_buffer := concat (map (\<lambda>(k, v). k @ '': '' @ v @ CRLF) hs) @ rest\<rparr>"
    by simp
  from Cons.IH[of m "h\<lparr>request := ?rq\<rparr>"] Cons.prems(1) n(2)
  obtain rq' where "parse_header_loop m
        ((h\<lparr>request := ?rq\<rparr>)\<lparr>pull_buffer := concat (map (\<lambda>(k, v). k @ '': '' @ v @ CRLF) hs) @ rest\<rparr>)
      = Some (Failed, throw ''Too many headers'' ((h\<lparr>request := ?rq\<rparr>)\<lparr>pull_buffer := rest, request := rq'\<rparr>))"
    by auto
  then show ?case unfolding step sw by (intro exI[of _ rq']) simp
qed

lemma too_many_headers_not_dispatched:
  assumes "list_all wf_header hs" "32 \<le> length hs"
    "wf_token m" "take 5 m \<noteq> ''HTTP/''" "wf_token p" "CHR ''?'' \<notin> set p" "wf_token ver"
  shows "\<exists>h'. run_once (new_handler ((m @ '' '' @ p @ '' '' @ ver @ CRLF)
                   @ concat (map (\<lambda>(k, v). k @ '': '' @ v @ CRLF) hs) @ rest))
               = Some (None, h')
             \<and> exit h' \<and> close h' \<and> errors h' = [''Too many headers'']"
proof -
  let ?f = "\<lambda>(k, v). k @ '': '' @ v @ CRLF"
  let ?tail = "concat (map ?f hs) @ rest"
  let ?h1 = "(new_handler ?tail)\<lparr>request := new_request\<lparr>method_rq := Some m,
                  version := ver, path := Some p\<rparr>\<rparr>"
  have rl: "parse_request_line (new_handler ((m @ '' '' @ p @ '' '' @ ver @ CRLF) @ ?tail))
              = Some (Done, ?h1)"
    using read_start_line[OF assms(3,5,7), where rest="?tail" and h="new_handler []"]
      request_line_request[OF assms(3,4,5,6,7)]
    by (simp add: parse_request_line_def new_handler_def)
  have sp: "?tail = concat (map ?f (take 32 hs)) @ (concat (map ?f (drop 32 hs)) @ rest)"
    by (metis append_assoc append_take_drop_id concat_append map_append)
  have l32: "length (take 32 hs) = 32" "list_all wf_header (take 32 hs)"
    using assms(1,2) by (auto simp: list_all_iff dest: in_set_takeD)
  have h1: "?h1 = ?h1\<lparr>pull_buffer := concat (map ?f (take 32 hs))
                         @ (concat (map ?f (drop 32 hs)) @ rest)\<rparr>"
    using sp by (simp add: new_handler_def)
  from parse_header_loop_exhausted[OF l32(2) l32(1), where h="?h1"
         and rest="concat (map ?f (drop 32 hs)) @ rest"]
  obtain rq' where ph: "parse_header ?h1
      = Some (Failed, throw ''Too many headers''
                (?h1\<lparr>pull_buffer := concat (map ?f (drop 32 hs)) @ rest, request := rq'\<rparr>))"
    unfolding parse_header_def h1[symmetric] by blast
  let ?h' = "throw ''Too many headers''
                (?h1\<lparr>pull_buffer := concat (map ?f (drop 32 hs)) @ rest, request := rq'\<rparr>)"
  have "parse_request (new_handler ((m @ '' '' @ p @ '' '' @ ver @ CRLF) @ ?tail))
        = Some (NoRequest, ?h')"
    apply (subst parse_request_def)
    apply (subst rl)
    apply (simp only: bind.bind_lunit prod.case step.case)
    apply (subst ph)
    apply simp
    done
  then have "run_once (new_handler ((m @ '' '' @ p @ '' '' @ ver @ CRLF) @ ?tail))
             = Some (None, ?h')"
    by (simp add: run_once_def new_handler_def)
  moreover have "exit ?h' \<and> close ?h' \<and> errors ?h' = [''Too many headers'']"
    by (simp add: throw_def shutdown_def halt_def Let_def new_handler_def)
  ultimately show ?thesis by blast
qed

lemma agent_denied:
  assumes "map_of hs ''user-agent'' = Some (PStr a)"
    "list_ex (\<lambda>keyword. contains keyword a) agent_keywords"
  shows "valid_headers hs = Inr False"
proof -
  have "a \<noteq> []" using assms(2) by (auto simp: agent_keywords_def)
  then show ?thesis using assms by (simp add: valid_headers_def truthy_def)
qed

lemma host_denied_only_when_equal:
  assumes "\<not> truthy (map_of hs ''user-agent'')"
  shows "valid_headers hs
         = Inr (map_of hs ''host'' \<notin> {Some (PStr ''webredirect''), Some (PStr ''ddnsfree'')})"
  using assms by (simp add: valid_headers_def host_keywords_def Let_def)

lemma denied_not_dispatched:
  assumes "list_all wf_header hs" "distinct (map fst (lower_keys hs))" "length hs < 32"
    "valid_headers (lower_keys hs) = Inr False"
    "wf_token m" "take 5 m \<noteq> ''HTTP/''" "wf_token p" "CHR ''?'' \<notin> set p" "wf_token ver"
  shows "\<exists>h'. run_once (new_handler ((m @ '' '' @ p @ '' '' @ ver @ CRLF)
                   @ concat (map (\<lambda>(k, v). k @ '': '' @ v @ CRLF) hs) @ CRLF @ body))
               = Some (None, h')
             \<and> exit h' \<and> close h' \<and> pull_buffer h' = body
             \<and> errors h' = [''Blocked Connection from banned source'']"
proof -
  let ?f = "\<lambda>(k, v). k @ '': '' @ v @ CRLF"
  let ?tail = "concat (map ?f hs) @ CRLF @ body"
  let ?h1 = "(new_handler ?tail)\<lparr>request := new_request\<lparr>method_rq := Some m,
                  version := ver, path := Some p\<rparr>\<rparr>"
  let ?h2 = "?h1\<lparr>pull_buffer := body, request := (request ?h1)\<lparr>header := [] @ lower_keys hs\<rparr>\<rparr>"
  have rl: "parse_request_line (new_handler ((m @ '' '' @ p @ '' '' @ ver @ CRLF) @ ?tail))
              = Some (Done, ?h1)"
    using read_start_line[OF assms(5,7,9), where rest="?tail" and h="new_handler []"]
      request_line_request[OF assms(5,6,7,8,9)]
    by (simp add: parse_request_line_def new_handler_def)
  have h1: "?h1 = ?h1\<lparr>pull_buffer := concat (map ?f hs) @ CRLF @ body\<rparr>"
    by (simp add: new_handler_def)
  have ph: "parse_header ?h1 = Some (Done, ?h2)"
    unfolding parse_header_def
    by (subst h1, rule parse_header_loop_ok[OF assms(1,2) _ assms(3)])
       (simp_all add: new_handler_def new_request_def)
  have va: "validate ?h2 = (Failed, throw ''Blocked Connection from banned source'' ?h2)"
    using assms(4) by (simp add: validate_def)
  let ?h' = "throw ''Blocked Connection from banned source'' ?h2"
  have "parse_request (new_handler ((m @ '' '' @ p @ '' '' @ ver @ CRLF) @ ?tail))
        = Some (NoRequest, ?h')"
    apply (subst parse_request_def)
    apply (subst rl)
    apply (simp only: bind.bind_lunit prod.case step.case)
    apply (subst ph)
    apply (simp only: bind.bind_lunit prod.case step.case)
    apply (subst va)
    apply simp
    done
  then have "run_once (new_handler ((m @ '' '' @ p @ '' '' @ ver @ CRLF) @ ?tail))
             = Some (None, ?h')"
    by (simp add: run_once_def new_handler_def)
  moreover have "exit ?h' \<and> close ?h' \<and> pull_buffer ?h' = body
                 \<and> errors ?h' = [''Blocked Connection from banned source'']"
    by (simp add: throw_def shutdown_def halt_def Let_def new_handler_def)
  ultimately show ?thesis by blast
qed

lemma agent_example_denied:
  "run_once (new_handler (''GET / HTTP/1.1'' @ CRLF @ ''user-agent: cloudsystemnetworks-bot'' @ CRLF
                       @ ''content-length: 3'' @ CRLF @ CRLF @ ''abc''))
   = Some (None, throw ''Blocked Connection from banned source''
             ((new_handler ''abc'')\<lparr>request := new_request\<lparr>method_rq := Some ''GET'', path := Some ''/'',
                 header := [(''user-agent'', PStr ''cloudsystemnetworks-bot''),
                            (''content-length'', PStr ''3'')]\<rparr>\<rparr>))"
  by code_simp

section \<open>The request codec: round trip, limits and the deny list\<close>




text \<open>
  The requests that well-formedness leaves out because the code mishandles them.

  Exactly 32 headers. \<open>parse_header\<close> gives up after 32 lines that are not blank, so a request
  with 32 headers is refused with \<open>Too many headers\<close> and the handler is shut down, although
  the limit it names is 32.
\<close>

lemma thirty_two_headers_refused:
  assumes "list_all wf_header (wire (header rq))" "length (header rq) = 32"
    "method_rq rq = Some m" "wf_token m" "take 5 m \<noteq> ''HTTP/''" "code rq = None"
    "path rq = Some p" "wf_token p" "CHR ''?'' \<notin> set p" "wf_token (version rq)"
  shows "\<exists>bytes h'. get_data rq = Some bytes
           \<and> run_once (new_handler (bytes @ rest)) = Some (None, h')
           \<and> exit h' \<and> close h' \<and> errors h' = [''Too many headers'']"
proof -
  have tm: "truthy_str (Some m)" using wf_tokenD(1)[OF assms(4)] by (simp add: truthy_str_def)
  let ?body = "CRLF @ (case content rq of Some c \<Rightarrow> c | None \<Rightarrow> CRLF)"
  let ?bytes = "(m @ '' '' @ p @ '' '' @ version rq @ CRLF)
              @ concat (map (\<lambda>(k, v). k @ '': '' @ v @ CRLF) (wire (header rq))) @ ?body"
  have ne: "header rq \<noteq> []" using assms(2) by auto
  have gd: "get_data rq = Some ?bytes"
    using assms(3,6,7) tm ne
    by (simp add: get_data_def verify_def format_request_line_def fmt_def truthy_def
          format_headers_wire)
  have len: "32 \<le> length (wire (header rq))" using assms(2) by (simp add: wire_def)
  from too_many_headers_not_dispatched[OF assms(1) len assms(4,5,8,9,10), of "?body @ rest"]
  obtain h' where h': "run_once (new_handler ((m @ '' '' @ p @ '' '' @ version rq @ CRLF)
                     @ concat (map (\<lambda>(k, v). k @ '': '' @ v @ CRLF) (wire (header rq)))
                     @ ?body @ rest)) = Some (None, h')"
      "exit h'" "close h'" "errors h' = [''Too many headers'']"
    by blast
  have "?bytes @ rest = (m @ '' '' @ p @ '' '' @ version rq @ CRLF)
                     @ concat (map (\<lambda>(k, v). k @ '': '' @ v @ CRLF) (wire (header rq)))
                     @ ?body @ rest"
    by simp
  with h'(1) have "run_once (new_handler (?bytes @ rest)) = Some (None, h')" by simp
  with gd h'(2,3,4) show ?thesis by blast
qed

text \<open>
  A message of several words. The response that \<open>add_response\<close> builds for code 404 is
  encoded with the start line \<open>HTTP/1.1 404 Not Found\<close>, which has four words: the parser
  throws, and the handler is shut down.
\<close>

lemma multi_word_message_refused:
  "add_response date_text 404 new_request = Inr not_found_response
   \<and> get_data not_found_response
       = Some (''HTTP/1.1 404 Not Found'' @ CRLF @ ''server: StreamingServer Python/3.7.3'' @ CRLF
                 @ ''date: Thu, 18 Jun 2020 16:05:22 GMT'' @ CRLF @ CRLF @ CRLF)
   \<and> map_option (map_prod id (\<lambda>h. (exit h, close h, errors h)))
        (run_once (new_handler (the (get_data not_found_response))))
       = Some (None, True, True, [''Request-Line must conform to HTTP Standard''])"
  by code_simp

text \<open>
  An empty content and no header. The request is encoded as its start line alone, with no
  blank line after it, so the parser takes what follows for its headers: two such requests
  in a row are refused at the second start line.
\<close>

lemma bare_request_unterminated:
  "add_content [] (add_request ''GET'' ''/'' ''HTTP/1.1'' new_request) = bare_request
   \<and> get_data bare_request = Some (''GET / HTTP/1.1'' @ CRLF)
   \<and> map_option (map_prod id (\<lambda>h. (exit h, close h, errors h)))
        (run_once (new_handler (the (get_data bare_request) @ the (get_data bare_request))))
       = Some (None, True, True, [''Header line did not match standard format.''])"
  by code_simp

text \<open>
  C4 at a header line of 2000 bytes and at a start line of 314 bytes, each terminated by
  CRLF. \<open>read\<close> measures a line only inside the loop that runs when the first \<open>readline()\<close>
  did not end in CRLF, so both lines are accepted whole: the request is parsed and handed
  to the node, and the handler is not shut down. (The limit of 32 header lines is enforced:
  \<open>too_many_headers_not_dispatched\<close>.)
\<close>

theorem long_lines_accepted:
  "length (''a: '' @ replicate 1997 (CHR ''x'')) = 2000
   \<and> run_once (new_handler (''GET / HTTP/1.1'' @ CRLF @ ''a: '' @ replicate 1997 (CHR ''x'') @ CRLF
                       @ CRLF @ CRLF))
       = Some (Some long_header_request, new_handler CRLF)
   \<and> length (''GET /'' @ replicate 300 (CHR ''p'') @ '' HTTP/1.1'') = 314
   \<and> run_once (new_handler (''GET /'' @ replicate 300 (CHR ''p'') @ '' HTTP/1.1'' @ CRLF @ CRLF))
       = Some (Some long_start_request, new_handler [])"
proof -
  have g1: "get_data long_header_request
            = Some (''GET / HTTP/1.1'' @ CRLF @ ''a: '' @ replicate 1997 (CHR ''x'') @ CRLF @ CRLF @ CRLF)"
    by (simp add: get_data_def verify_def format_request_line_def format_headers_def fmt_def
          truthy_str_def truthy_def str_of_def long_header_request_def)
  have l1: "long_header_request\<lparr>code := map_option (\<lambda>c. PStr (str_of c)) (code long_header_request),
               queries := [], header := lower_keys (wire (header long_header_request)),
               content := (if content long_header_request = Some [] then None
                           else content long_header_request)\<rparr>
            = long_header_request"
    by (simp add: long_header_request_def lower_keys_def wire_def str_of_def lower_a)
  have t1: "trailer long_header_request = CRLF"
    by (simp add: trailer_def long_header_request_def)
  from parse_well_formed[OF well_formed_long_header, of "[]"]
  have p1: "parse_request (new_handler (''GET / HTTP/1.1'' @ CRLF @ ''a: ''
                @ replicate 1997 (CHR ''x'') @ CRLF @ CRLF @ CRLF))
            = Some (Parsed long_header_request, new_handler CRLF)"
    unfolding g1 l1 t1 by simp
  have g2: "get_data long_start_request
            = Some (''GET /'' @ replicate 300 (CHR ''p'') @ '' HTTP/1.1'' @ CRLF @ CRLF)"
    by (simp add: get_data_def verify_def format_request_line_def format_headers_def fmt_def
          truthy_str_def truthy_def long_start_request_def)
  have l2: "long_start_request\<lparr>code := map_option (\<lambda>c. PStr (str_of c)) (code long_start_request),
               queries := [], header := lower_keys (wire (header long_start_request)),
               content := (if content long_start_request = Some [] then None
                           else content long_start_request)\<rparr>
            = long_start_request"
    by (simp add: long_start_request_def lower_keys_def wire_def)
  have t2: "trailer long_start_request = []"
    by (simp add: trailer_def long_start_request_def)
  from parse_well_formed[OF well_formed_long_start, of "[]"]
  have p2: "parse_request (new_handler (''GET /'' @ replicate 300 (CHR ''p'') @ '' HTTP/1.1''
                @ CRLF @ CRLF))
            = Some (Parsed long_start_request, new_handler [])"
    unfolding g2 l2 t2 by simp
  show ?thesis
    using run_once_parsed[OF p1] run_once_parsed[OF p2] by simp
qed

text \<open>
  C5 at a host header that contains the deny-list word \<open>webredirect\<close>. \<open>validate\<close> compares
  the host keywords with the whole header value, so the request passes: its three body
  bytes are read and it is handed to the node. (A user-agent that contains a keyword is
  refused before the body is read: \<open>agent_denied\<close>, \<open>denied_not_dispatched\<close>.)
\<close>

theorem host_substring_dispatched:
  "contains ''webredirect'' ''foo.webredirect.org''
   \<and> run_once (new_handler (''GET / HTTP/1.1'' @ CRLF @ ''host: foo.webredirect.org'' @ CRLF
                       @ ''content-length: 3'' @ CRLF @ CRLF @ ''abc''))
       = Some (Some \<lparr>method_rq = Some ''GET'', code = None, message = None,
                     version = ''HTTP/1.1'', path = Some ''/'', queries = [],
                     header = [(''host'', PStr ''foo.webredirect.org''),
                               (''content-length'', PStr ''3'')],
                     content = Some ''abc''\<rparr>,
               new_handler [])"
  by code_simp

end
